theory Spec2Isabelle
  imports Main "HOL-Library.Word"
begin

unbundle bit_operations_syntax

section \<open>Slash-separated paths (Go's \<open>path\<close> package)\<close>

text \<open>
  \<open>config.go\<close> builds every location with \<open>path.Join\<close> and \<open>path.Dir\<close>. Both end in
  \<open>path.Clean\<close>, which works lexically on the elements between slashes: empty elements
  and \<open>.\<close> are dropped, \<open>..\<close> removes the element before it (at the root it is dropped,
  at the start of a relative path it is kept).
\<close>

fun split_on :: "char \<Rightarrow> string \<Rightarrow> string list" where
  "split_on d [] = [[]]"
| "split_on d (c # cs) =
     (if c = d then [] # split_on d cs
      else (case split_on d cs of [] \<Rightarrow> [[c]] | x # xs \<Rightarrow> (c # x) # xs))"

fun join_sep :: "string list \<Rightarrow> string" where
  "join_sep [] = []"
| "join_sep [x] = x"
| "join_sep (x # y # ys) = x @ CHR ''/'' # join_sep (y # ys)"

definition clean_step :: "bool \<Rightarrow> string list \<Rightarrow> string \<Rightarrow> string list" where
  "clean_step rooted out c =
     (if c = [] \<or> c = ''.'' then out
      else if c = ''..'' then
        (if out \<noteq> [] \<and> last out \<noteq> ''..'' then butlast out
         else if rooted then out
         else out @ [''..''])
      else out @ [c])"

definition Clean :: "string \<Rightarrow> string" where
  "Clean p =
     (if p = [] then ''.''
      else
        let rooted = (hd p = CHR ''/'');
            out = foldl (clean_step rooted) [] (split_on CHR ''/'' p)
        in if rooted then CHR ''/'' # join_sep out
           else if out = [] then ''.''
           else join_sep out)"

definition Join :: "string list \<Rightarrow> string" where
  "Join elem =
     (case dropWhile (\<lambda>e. e = []) elem of
        [] \<Rightarrow> []
      | e # es \<Rightarrow> Clean (join_sep (e # es)))"

definition Dir :: "string \<Rightarrow> string" where
  "Dir p = Clean (rev (dropWhile (\<lambda>c. c \<noteq> CHR ''/'') (rev p)))"

section \<open>The process environment and the filesystem\<close>

text \<open>
  Everything \<open>config.go\<close> reads from or writes to outside its own variables is one
  explicit value, the \<open>world\<close>: the operating-system name (\<open>runtime.GOOS\<close>), the
  environment variables, the outcome of \<open>exec.LookPath\<close> for a command name, the working
  directory, the file-creation mask, and the filesystem.

  The filesystem maps a location (the list of names from the root) to a directory or a
  regular file. Both carry their permission bits; a file carries its bytes. The process is
  the unprivileged owner of every entry, so the owner bits decide: \<open>0400\<close> read, \<open>0200\<close>
  write, \<open>0100\<close> search. There are no symbolic links, and the only failures are those of
  name resolution and permissions (no full disk, no I/O error).
\<close>

datatype errno = ENOENT | ENOTDIR | EACCES | EEXIST | EISDIR

type_synonym FileMode = "32 word"

datatype node = DirNode FileMode | FileNode FileMode string

record world =
  GOOS :: string
  environ :: "string \<rightharpoonup> string"
  path_lookup :: "string \<rightharpoonup> string"
  cwd :: "string list"
  umask :: FileMode
  files :: "string list \<rightharpoonup> node"

datatype error =
    PathError errno
  | SyntaxError
  | UnmarshalTypeError
  | EditorNotFound
  | MissingDefaultFilterCmdError

definition can_read :: "FileMode \<Rightarrow> bool" where
  "can_read m = (m AND 0x100 \<noteq> 0)"

definition can_write :: "FileMode \<Rightarrow> bool" where
  "can_write m = (m AND 0x80 \<noteq> 0)"

definition can_search :: "FileMode \<Rightarrow> bool" where
  "can_search m = (m AND 0x40 \<noteq> 0)"

definition new_mode :: "world \<Rightarrow> FileMode \<Rightarrow> FileMode" where
  "new_mode w perm = (perm AND 0x1FF) AND NOT (umask w)"

text \<open>
  Name resolution walks the elements of a path from the root (absolute path) or from the
  working directory. Each step needs the current location to be a directory that may be
  searched; \<open>.\<close> stays, \<open>..\<close> goes to the parent, a name goes to the child, which need not
  exist when it is the last element.
\<close>

fun walk :: "(string list \<rightharpoonup> node) \<Rightarrow> string list \<Rightarrow> string list \<Rightarrow> errno + string list" where
  "walk fs cur [] = Inr cur"
| "walk fs cur (c # cs) =
     (case fs cur of
        None \<Rightarrow> Inl ENOENT
      | Some (FileNode m b) \<Rightarrow> Inl ENOTDIR
      | Some (DirNode m) \<Rightarrow>
          if \<not> can_search m then Inl EACCES
          else if c = ''.'' then walk fs cur cs
          else if c = ''..'' then walk fs (butlast cur) cs
          else walk fs (cur @ [c]) cs)"

definition elements :: "string \<Rightarrow> string list" where
  "elements p = filter (\<lambda>c. c \<noteq> []) (split_on CHR ''/'' p)"

definition trailing_slash :: "string \<Rightarrow> bool" where
  "trailing_slash p = (p \<noteq> [] \<and> last p = CHR ''/'')"

definition namei :: "world \<Rightarrow> string \<Rightarrow> errno + string list" where
  "namei w p =
     (if p = [] then Inl ENOENT
      else walk (files w) (if hd p = CHR ''/'' then [] else cwd w) (elements p))"

text \<open>\<open>os.Stat\<close>: the entry a path names, as (is-directory, mode), or the error.\<close>

definition Stat :: "world \<Rightarrow> string \<Rightarrow> errno + (bool \<times> FileMode)" where
  "Stat w p =
     (case namei w p of
        Inl e \<Rightarrow> Inl e
      | Inr loc \<Rightarrow>
          (case files w loc of
             None \<Rightarrow> Inl ENOENT
           | Some (DirNode m) \<Rightarrow> Inr (True, m)
           | Some (FileNode m b) \<Rightarrow>
               if trailing_slash p then Inl ENOTDIR else Inr (False, m)))"

text \<open>Adding an entry needs a parent directory that may be written and searched.\<close>

definition create_node :: "world \<Rightarrow> string list \<Rightarrow> node \<Rightarrow> world \<times> errno option" where
  "create_node w loc n =
     (if loc = [] then (w, Some ENOENT)
      else
        (case files w (butlast loc) of
           None \<Rightarrow> (w, Some ENOENT)
         | Some (FileNode m b) \<Rightarrow> (w, Some ENOTDIR)
         | Some (DirNode m) \<Rightarrow>
             if can_write m \<and> can_search m
             then (w\<lparr>files := (files w)(loc \<mapsto> n)\<rparr>, None)
             else (w, Some EACCES)))"

definition Mkdir :: "world \<Rightarrow> string \<Rightarrow> FileMode \<Rightarrow> world \<times> error option" where
  "Mkdir w p perm =
     (case namei w p of
        Inl e \<Rightarrow> (w, Some (PathError e))
      | Inr loc \<Rightarrow>
          (case files w loc of
             Some n \<Rightarrow> (w, Some (PathError EEXIST))
           | None \<Rightarrow>
               (case create_node w loc (DirNode (new_mode w perm)) of
                  (w', Some e) \<Rightarrow> (w', Some (PathError e))
                | (w', None) \<Rightarrow> (w', None))))"

text \<open>
  \<open>os.MkdirAll\<close>, as the Go library writes it: succeed at once on a directory, refuse a
  file; otherwise strip trailing slashes, find where the last element starts
  (\<open>parent_end\<close>, the library's \<open>j\<close>), make the parent first when there is one
  (\<open>j > 1\<close>), then \<open>Mkdir\<close> the path itself, and forgive a failed \<open>Mkdir\<close> when the
  path turns out to be a directory after all.
\<close>

definition parent_end :: "string \<Rightarrow> nat" where
  "parent_end p =
     length (dropWhile (\<lambda>c. c \<noteq> CHR ''/'') (dropWhile (\<lambda>c. c = CHR ''/'') (rev p)))"

lemma parent_end_le: "parent_end p \<le> length p"
proof -
  have "parent_end p \<le> length (dropWhile (\<lambda>c. c = CHR ''/'') (rev p))"
    unfolding parent_end_def by (rule length_dropWhile_le)
  also have "\<dots> \<le> length (rev p)"
    by (rule length_dropWhile_le)
  finally show ?thesis by simp
qed

function MkdirAll :: "world \<Rightarrow> string \<Rightarrow> FileMode \<Rightarrow> world \<times> error option" where
  "MkdirAll w p perm =
     (case Stat w p of
        Inr (isdir, m) \<Rightarrow>
          if isdir then (w, None) else (w, Some (PathError ENOTDIR))
      | Inl e \<Rightarrow>
          (case (if 1 < parent_end p then MkdirAll w (take (parent_end p - 1) p) perm
                 else (w, None)) of
             (w1, Some err) \<Rightarrow> (w1, Some err)
           | (w1, None) \<Rightarrow>
               (case Mkdir w1 p perm of
                  (w2, None) \<Rightarrow> (w2, None)
                | (w2, Some err) \<Rightarrow>
                    (case Stat w2 p of
                       Inr (isdir, m) \<Rightarrow> if isdir then (w2, None) else (w2, Some err)
                     | Inl e1 \<Rightarrow> (w2, Some err)))))"
  by pat_completeness auto

termination
proof (relation "measure (\<lambda>(w, p, perm). length p)")
  show "wf (measure (\<lambda>(w, p, perm). length p))" by simp
next
  fix w :: world and p :: string and perm :: FileMode and e :: errno
  assume "1 < parent_end p"
  with parent_end_le [of p] show
    "((w, take (parent_end p - 1) p, perm), (w, p, perm)) \<in> measure (\<lambda>(w, p, perm). length p)"
    by simp
qed

text \<open>
  \<open>os.OpenFile\<close> with the access mode and the \<open>O_CREATE\<close> and \<open>O_TRUNC\<close> flags. The
  descriptor it returns is the location of the file. An existing file is opened when its
  mode allows the access (and emptied under \<open>O_TRUNC\<close>); a missing one is created, with
  no content, when \<open>O_CREATE\<close> is set.
\<close>

datatype access = O_RDONLY | O_WRONLY | O_RDWR

definition reads :: "access \<Rightarrow> bool" where
  "reads a = (a \<noteq> O_WRONLY)"

definition writes :: "access \<Rightarrow> bool" where
  "writes a = (a \<noteq> O_RDONLY)"

definition OpenFile ::
  "world \<Rightarrow> string \<Rightarrow> access \<Rightarrow> bool \<Rightarrow> bool \<Rightarrow> FileMode \<Rightarrow> world \<times> (errno + string list)" where
  "OpenFile w p acc creat trunc perm =
     (case namei w p of
        Inl e \<Rightarrow> (w, Inl e)
      | Inr loc \<Rightarrow>
          (case files w loc of
             Some (DirNode m) \<Rightarrow>
               if writes acc then (w, Inl EISDIR)
               else if \<not> can_read m then (w, Inl EACCES)
               else (w, Inr loc)
           | Some (FileNode m b) \<Rightarrow>
               if trailing_slash p then (w, Inl ENOTDIR)
               else if (reads acc \<and> \<not> can_read m) \<or> (writes acc \<and> \<not> can_write m)
                 then (w, Inl EACCES)
               else if trunc then (w\<lparr>files := (files w)(loc \<mapsto> FileNode m [])\<rparr>, Inr loc)
               else (w, Inr loc)
           | None \<Rightarrow>
               if \<not> creat then (w, Inl ENOENT)
               else if trailing_slash p then (w, Inl EISDIR)
               else
                 (case create_node w loc (FileNode (new_mode w perm) []) of
                    (w', Some e) \<Rightarrow> (w', Inl e)
                  | (w', None) \<Rightarrow> (w', Inr loc))))"

text \<open>\<open>os.Create\<close> is \<open>OpenFile(name, O_RDWR|O_CREATE|O_TRUNC, 0666)\<close>.\<close>

definition Create :: "world \<Rightarrow> string \<Rightarrow> world \<times> error option" where
  "Create w p =
     (case OpenFile w p O_RDWR True True 0x1B6 of
        (w', Inl e) \<Rightarrow> (w', Some (PathError e))
      | (w', Inr fd) \<Rightarrow> (w', None))"

text \<open>\<open>ioutil.ReadFile\<close>: open for reading and return the bytes; a directory cannot be read.\<close>

definition ReadFile :: "world \<Rightarrow> string \<Rightarrow> string \<times> error option" where
  "ReadFile w p =
     (case OpenFile w p O_RDONLY False False 0 of
        (w', Inl e) \<Rightarrow> ([], Some (PathError e))
      | (w', Inr fd) \<Rightarrow>
          (case files w' fd of
             Some (FileNode m b) \<Rightarrow> (b, None)
           | _ \<Rightarrow> ([], Some (PathError EISDIR))))"

text \<open>
  \<open>ioutil.WriteFile\<close> is \<open>OpenFile(name, O_WRONLY|O_CREATE|O_TRUNC, perm)\<close> followed by
  one write of the data.
\<close>

definition WriteFile :: "world \<Rightarrow> string \<Rightarrow> string \<Rightarrow> FileMode \<Rightarrow> world \<times> error option" where
  "WriteFile w p data perm =
     (case OpenFile w p O_WRONLY True True perm of
        (w', Inl e) \<Rightarrow> (w', Some (PathError e))
      | (w', Inr fd) \<Rightarrow>
          (case files w' fd of
             Some (FileNode m b) \<Rightarrow> (w'\<lparr>files := (files w')(fd \<mapsto> FileNode m data)\<rparr>, None)
           | _ \<Rightarrow> (w', Some (PathError EISDIR))))"

text \<open>\<open>os.Getenv\<close> gives the empty string for an unset variable; \<open>os.LookupEnv\<close> tells
  the two apart; \<open>os.IsNotExist\<close> recognises the missing-entry error.\<close>

definition Getenv :: "world \<Rightarrow> string \<Rightarrow> string" where
  "Getenv w k = (case environ w k of None \<Rightarrow> [] | Some v \<Rightarrow> v)"

definition LookupEnv :: "world \<Rightarrow> string \<Rightarrow> string \<times> bool" where
  "LookupEnv w k = (case environ w k of None \<Rightarrow> ([], False) | Some v \<Rightarrow> (v, True))"

definition IsNotExist :: "error option \<Rightarrow> bool" where
  "IsNotExist err = (err = Some (PathError ENOENT))"

text \<open>
  \<open>exec.LookPath\<close>: the search of \<open>PATH\<close> for an executable of that name is taken from
  the world as it is, the path found or nothing.
\<close>

definition ErrNotFound :: error where
  "ErrNotFound = PathError ENOENT"

definition LookPath :: "world \<Rightarrow> string \<Rightarrow> string \<times> error option" where
  "LookPath w file =
     (case path_lookup w file of
        None \<Rightarrow> ([], Some ErrNotFound)
      | Some p \<Rightarrow> (p, None))"

section \<open>The configuration and its JSON document\<close>

record Config =
  SnippetsFile :: string
  SnippetsDir :: string
  Editor :: string
  FilterCmd :: string

definition DEFAULT_CONFIG_FILE :: string where
  "DEFAULT_CONFIG_FILE = ''.corgi/corgi_conf.json''"

definition DEFAULT_SNIPPETS_DIR :: string where
  "DEFAULT_SNIPPETS_DIR = ''.corgi/snippets''"

definition DEFAULT_SNIPPETS_FILE :: string where
  "DEFAULT_SNIPPETS_FILE = ''.corgi/snippets.json''"

definition DEFAULT_EDITOR :: string where
  "DEFAULT_EDITOR = ''vim''"

definition DEFAULT_FILTER_CMD_FZF :: string where
  "DEFAULT_FILTER_CMD_FZF = ''fzf''"

definition DEFAULT_FILTER_CMD_PECO :: string where
  "DEFAULT_FILTER_CMD_PECO = ''peco''"

text \<open>
  The two constants \<open>util.JSON_MARSHAL_PREFIX\<close> and \<open>util.JSON_MARSHAL_INDENT\<close> are
  declared outside \<open>config.go\<close>; \<open>Save\<close> and \<open>Load\<close> take them as a parameter.
\<close>

record util =
  JSON_MARSHAL_PREFIX :: string
  JSON_MARSHAL_INDENT :: string

subsection \<open>Writing: \<open>json.MarshalIndent\<close> on a \<open>Config\<close>\<close>

text \<open>
  Go strings are byte strings, and the JSON writer makes well-formed UTF-8 of them.
  \<open>rune_len\<close> is the number of bytes of the UTF-8 sequence a string starts with
  (\<open>utf8.DecodeRuneInString\<close>), or \<open>0\<close> when it starts with none.
\<close>

definition between :: "nat \<Rightarrow> nat \<Rightarrow> char \<Rightarrow> bool" where
  "between lo hi c = (lo \<le> of_char c \<and> (of_char c :: nat) \<le> hi)"

definition conts :: "nat \<Rightarrow> string \<Rightarrow> bool" where
  "conts n s = (n \<le> length s \<and> list_all (between 0x80 0xBF) (take n s))"

definition starts :: "nat \<Rightarrow> nat \<Rightarrow> string \<Rightarrow> bool" where
  "starts lo hi s = (case s of [] \<Rightarrow> False | b # r \<Rightarrow> between lo hi b)"

definition rune_len :: "string \<Rightarrow> nat" where
  "rune_len s =
     (case s of
        [] \<Rightarrow> 0
      | a # r \<Rightarrow>
          if (of_char a :: nat) < 0x80 then 1
          else if between 0xC2 0xDF a then (if conts 1 r then 2 else 0)
          else if between 0xE0 0xE0 a then (if starts 0xA0 0xBF r \<and> conts 2 r then 3 else 0)
          else if between 0xE1 0xEC a then (if conts 2 r then 3 else 0)
          else if between 0xED 0xED a then (if starts 0x80 0x9F r \<and> conts 2 r then 3 else 0)
          else if between 0xEE 0xEF a then (if conts 2 r then 3 else 0)
          else if between 0xF0 0xF0 a then (if starts 0x90 0xBF r \<and> conts 3 r then 4 else 0)
          else if between 0xF1 0xF3 a then (if conts 3 r then 4 else 0)
          else if between 0xF4 0xF4 a then (if starts 0x80 0x8F r \<and> conts 3 r then 4 else 0)
          else 0)"

text \<open>
  A string is written between double quotes. In ASCII, the quote and the backslash get a
  backslash; newline, carriage return and tab are \<open>\n\<close>, \<open>\r\<close>, \<open>\t\<close>; the other
  bytes below \<open>0x20\<close> and the three characters \<open><\<close>, \<open>>\<close>, \<open>&\<close> are written
  \<open>\u00XX\<close>; every other ASCII byte is copied. Beyond ASCII, a byte that starts no
  well-formed sequence is written \<open>\ufffd\<close> (the replacement character), the line and
  paragraph separators \<open>U+2028\<close> and \<open>U+2029\<close> are written as escapes, and every
  other sequence is copied.
\<close>

definition hex :: string where
  "hex = ''0123456789abcdef''"

definition escape_byte :: "char \<Rightarrow> string" where
  "escape_byte c =
     (if c = CHR 0x22 \<or> c = CHR 0x5C then [CHR 0x5C, c]
      else if c = CHR 0x0A then [CHR 0x5C, CHR ''n'']
      else if c = CHR 0x0D then [CHR 0x5C, CHR ''r'']
      else if c = CHR 0x09 then [CHR 0x5C, CHR ''t'']
      else if (of_char c :: nat) < 0x20 \<or> c = CHR ''<'' \<or> c = CHR ''>'' \<or> c = CHR ''&''
        then [CHR 0x5C, CHR ''u'', CHR ''0'', CHR ''0'',
              hex ! (of_char c div 16), hex ! (of_char c mod 16)]
      else [c])"

definition replacement :: string where
  "replacement = [CHR 0xEF, CHR 0xBF, CHR 0xBD]"

definition line_separator :: string where
  "line_separator = [CHR 0xE2, CHR 0x80, CHR 0xA8]"

definition paragraph_separator :: string where
  "paragraph_separator = [CHR 0xE2, CHR 0x80, CHR 0xA9]"

function escape :: "string \<Rightarrow> string" where
  "escape [] = []"
| "escape (c # cs) =
     (if (of_char c :: nat) < 0x80 then escape_byte c @ escape cs
      else if rune_len (c # cs) = 0 then
        [CHR 0x5C, CHR ''u'', CHR ''f'', CHR ''f'', CHR ''f'', CHR ''d''] @ escape cs
      else if take 3 (c # cs) = line_separator then
        [CHR 0x5C, CHR ''u'', CHR ''2'', CHR ''0'', CHR ''2'', CHR ''8''] @ escape (drop 2 cs)
      else if take 3 (c # cs) = paragraph_separator then
        [CHR 0x5C, CHR ''u'', CHR ''2'', CHR ''0'', CHR ''2'', CHR ''9''] @ escape (drop 2 cs)
      else take (rune_len (c # cs)) (c # cs) @ escape (drop (rune_len (c # cs) - 1) cs))"
  by pat_completeness auto

termination
  by (relation "measure length") simp_all

declare escape.simps [simp del]

definition quote :: "string \<Rightarrow> string" where
  "quote s = CHR 0x22 # escape s @ [CHR 0x22]"

text \<open>
  The four members come in the order of the struct, one per line, each line starting with
  the prefix and one indent, and the closing brace after the prefix.
\<close>

definition member :: "util \<Rightarrow> string \<Rightarrow> string \<Rightarrow> string" where
  "member u k v =
     CHR 0x0A # JSON_MARSHAL_PREFIX u @ JSON_MARSHAL_INDENT u @ quote k @ '': '' @ quote v"

definition MarshalIndent :: "Config \<Rightarrow> util \<Rightarrow> string \<times> error option" where
  "MarshalIndent c u =
     (''{'' @ member u ''snippets_file'' (SnippetsFile c) @ '',''
          @ member u ''snippets_dir'' (SnippetsDir c) @ '',''
          @ member u ''editor'' (Editor c) @ '',''
          @ member u ''filter_cmd'' (FilterCmd c)
          @ CHR 0x0A # JSON_MARSHAL_PREFIX u @ ''}'',
      None)"

subsection \<open>Reading: \<open>json.Unmarshal\<close> into a \<open>Config\<close>\<close>

text \<open>
  The reader takes a document in three steps: the bytes are cut into tokens (\<open>lex\<close>),
  the tokens are read as one JSON value (\<open>parse\<close>), and the value is put into the
  \<open>Config\<close> (\<open>decode\<close>). Strings come first.

  In a string, \<open>\uXXXX\<close> stands for the UTF-8 bytes of that code point; the two halves
  of a surrogate pair make one code point, and half a pair is the replacement character.
  A byte that starts no well-formed UTF-8 sequence is read as the replacement character.
  A byte below \<open>0x20\<close> and an unknown escape are errors.
\<close>

definition hex_val :: "char \<Rightarrow> nat option" where
  "hex_val c =
     (let n = (of_char c :: nat) in
      if 0x30 \<le> n \<and> n \<le> 0x39 then Some (n - 0x30)
      else if 0x61 \<le> n \<and> n \<le> 0x66 then Some (n - 0x61 + 10)
      else if 0x41 \<le> n \<and> n \<le> 0x46 then Some (n - 0x41 + 10)
      else None)"

definition unescape :: "char \<Rightarrow> char option" where
  "unescape e =
     (if e = CHR 0x22 \<or> e = CHR 0x5C \<or> e = CHR ''/'' then Some e
      else if e = CHR ''b'' then Some (CHR 0x08)
      else if e = CHR ''f'' then Some (CHR 0x0C)
      else if e = CHR ''n'' then Some (CHR 0x0A)
      else if e = CHR ''r'' then Some (CHR 0x0D)
      else if e = CHR ''t'' then Some (CHR 0x09)
      else None)"

definition getu4 :: "string \<Rightarrow> nat option" where
  "getu4 s =
     (case s of
        b # u # h1 # h2 # h3 # h4 # r \<Rightarrow>
          if b = CHR 0x5C \<and> u = CHR ''u'' then
            (case (hex_val h1, hex_val h2, hex_val h3, hex_val h4) of
               (Some x1, Some x2, Some x3, Some x4) \<Rightarrow> Some (((x1 * 16 + x2) * 16 + x3) * 16 + x4)
             | _ \<Rightarrow> None)
          else None
      | _ \<Rightarrow> None)"

definition is_surrogate :: "nat \<Rightarrow> bool" where
  "is_surrogate r = (0xD800 \<le> r \<and> r < 0xE000)"

definition decode_pair :: "nat \<Rightarrow> nat option \<Rightarrow> nat option" where
  "decode_pair r1 r2 =
     (case r2 of
        None \<Rightarrow> None
      | Some lo \<Rightarrow>
          if 0xD800 \<le> r1 \<and> r1 < 0xDC00 \<and> 0xDC00 \<le> lo \<and> lo < 0xE000
          then Some ((r1 - 0xD800) * 0x400 + (lo - 0xDC00) + 0x10000)
          else None)"

definition encode_rune :: "nat \<Rightarrow> string" where
  "encode_rune r =
     (if r < 0x80 then [char_of r]
      else if r < 0x800 then [char_of (0xC0 + r div 0x40), char_of (0x80 + r mod 0x40)]
      else if is_surrogate r \<or> 0x10FFFF < r then replacement
      else if r < 0x10000 then
        [char_of (0xE0 + r div 0x1000), char_of (0x80 + r div 0x40 mod 0x40),
         char_of (0x80 + r mod 0x40)]
      else
        [char_of (0xF0 + r div 0x40000), char_of (0x80 + r div 0x1000 mod 0x40),
         char_of (0x80 + r div 0x40 mod 0x40), char_of (0x80 + r mod 0x40)])"

definition push :: "string option \<Rightarrow> (string \<times> string) option \<Rightarrow> (string \<times> string) option" where
  "push c r =
     (case c of
        None \<Rightarrow> None
      | Some s0 \<Rightarrow> (case r of None \<Rightarrow> None | Some (s, rest) \<Rightarrow> Some (s0 @ s, rest)))"

text \<open>\<open>unquote\<close> reads a string from just after its opening quote and returns the bytes
  it denotes and the input after the closing quote.\<close>

function unquote :: "string \<Rightarrow> (string \<times> string) option" where
  "unquote [] = None"
| "unquote (c # cs) =
     (if c = CHR 0x22 then Some ([], cs)
      else if c = CHR 0x5C then
        (case cs of
           [] \<Rightarrow> None
         | e # r \<Rightarrow>
             if e = CHR ''u'' then
               (case getu4 (c # cs) of
                  None \<Rightarrow> None
                | Some rr \<Rightarrow>
                    if is_surrogate rr then
                      (case decode_pair rr (getu4 (drop 5 cs)) of
                         Some dec \<Rightarrow> push (Some (encode_rune dec)) (unquote (drop 11 cs))
                       | None \<Rightarrow> push (Some replacement) (unquote (drop 5 cs)))
                    else push (Some (encode_rune rr)) (unquote (drop 5 cs)))
             else push (map_option (\<lambda>x. [x]) (unescape e)) (unquote r))
      else if (of_char c :: nat) < 0x20 then None
      else if (of_char c :: nat) < 0x80 then push (Some [c]) (unquote cs)
      else if rune_len (c # cs) = 0 then push (Some replacement) (unquote cs)
      else push (Some (take (rune_len (c # cs)) (c # cs)))
             (unquote (drop (rune_len (c # cs) - 1) cs)))"
  by pat_completeness auto

termination
  by (relation "measure length") simp_all

declare unquote.simps [simp del]

lemma push_rest: "push c r = Some (s, rest) \<Longrightarrow> \<exists>s'. r = Some (s', rest)"
  by (auto simp: push_def split: option.splits)

lemma unquote_shorter: "unquote inp = Some (s, rest) \<Longrightarrow> length rest < length inp"
proof (induction "length inp" arbitrary: inp s rule: less_induct)
  case less
  show ?case
  proof (cases inp)
    case Nil
    with less.prems show ?thesis by (simp add: unquote.simps)
  next
    case (Cons c cs)
    have shorter: "length rest < length inp"
      if "unquote (drop k cs) = Some (s', rest)" for k s'
    proof -
      have "length (drop k cs) < length inp" using Cons by simp
      from less.hyps [OF this that] show ?thesis using Cons by simp
    qed
    from less.prems Cons have
      "rest = cs \<or> (\<exists>k s'. unquote (drop k cs) = Some (s', rest))"
      by (auto simp: unquote.simps split: if_splits list.splits option.splits dest!: push_rest)
        (metis drop0 drop_Suc_Cons)+
    then show ?thesis
    proof
      assume "rest = cs"
      with Cons show ?thesis by simp
    next
      assume "\<exists>k s'. unquote (drop k cs) = Some (s', rest)"
      then show ?thesis using shorter by blast
    qed
  qed
qed

text \<open>
  A number is an optional minus sign, then \<open>0\<close> or a digit from \<open>1\<close> to \<open>9\<close> with
  any digits after it, then an optional fraction (a point and at least one digit), then an
  optional exponent (\<open>e\<close> or \<open>E\<close>, an optional sign, at least one digit). \<open>number\<close>
  returns the input after the number. The \<open>Config\<close> has no field for a number: its value
  is not kept.
\<close>

definition is_digit :: "char \<Rightarrow> bool" where
  "is_digit c = between 0x30 0x39 c"

definition digits :: "string \<Rightarrow> string option" where
  "digits s =
     (case s of
        [] \<Rightarrow> None
      | d # r \<Rightarrow> if is_digit d then Some (dropWhile is_digit r) else None)"

definition exponent :: "string \<Rightarrow> string option" where
  "exponent s =
     (case s of
        [] \<Rightarrow> Some []
      | e # r \<Rightarrow>
          if e = CHR ''e'' \<or> e = CHR ''E'' then
            (case r of
               [] \<Rightarrow> None
             | sign # r' \<Rightarrow> if sign = CHR ''+'' \<or> sign = CHR ''-'' then digits r' else digits r)
          else Some s)"

definition fraction :: "string \<Rightarrow> string option" where
  "fraction s =
     (case s of
        [] \<Rightarrow> Some []
      | p # r \<Rightarrow>
          if p = CHR ''.'' then (case digits r of None \<Rightarrow> None | Some r' \<Rightarrow> exponent r')
          else exponent s)"

definition number :: "string \<Rightarrow> string option" where
  "number s =
     (case (case s of [] \<Rightarrow> [] | m # r \<Rightarrow> if m = CHR ''-'' then r else s) of
        [] \<Rightarrow> None
      | d # r \<Rightarrow>
          if d = CHR ''0'' then fraction r
          else if is_digit d then fraction (dropWhile is_digit r)
          else None)"

lemma digits_shorter: "digits s = Some r \<Longrightarrow> length r < length s"
  by (auto simp: digits_def less_Suc_eq_le length_dropWhile_le split: list.splits if_splits)

lemma exponent_shorter: "exponent s = Some r \<Longrightarrow> length r \<le> length s"
  by (auto simp: exponent_def split: list.splits if_splits dest!: digits_shorter)

lemma fraction_shorter: "fraction s = Some r \<Longrightarrow> length r \<le> length s"
  by (auto simp: fraction_def split: list.splits if_splits option.splits
      dest!: digits_shorter exponent_shorter)

lemma number_shorter: "number s = Some r \<Longrightarrow> length r < length s"
proof -
  have le: "length (dropWhile is_digit t) \<le> length t" for t
    by (rule length_dropWhile_le)
  assume "number s = Some r"
  then show ?thesis
    using le
    by (auto simp: number_def less_Suc_eq_le split: list.splits if_splits
        dest!: fraction_shorter intro: order_trans le_SucI)
qed

text \<open>
  The tokens of a document. White space (space, tab, newline, carriage return) separates
  them and is dropped.
\<close>

datatype token =
    LBrace | RBrace | LBracket | RBracket | Colon | Comma
  | Str string | Num | TrueLit | FalseLit | NullLit

definition is_space :: "char \<Rightarrow> bool" where
  "is_space c = (c = CHR '' '' \<or> c = CHR 0x09 \<or> c = CHR 0x0A \<or> c = CHR 0x0D)"

definition cons_tok :: "token \<Rightarrow> token list option \<Rightarrow> token list option" where
  "cons_tok t r = (case r of None \<Rightarrow> None | Some ts \<Rightarrow> Some (t # ts))"

function lex :: "string \<Rightarrow> token list option" where
  "lex [] = Some []"
| "lex (c # cs) =
     (if is_space c then lex cs
      else if c = CHR ''{'' then cons_tok LBrace (lex cs)
      else if c = CHR ''}'' then cons_tok RBrace (lex cs)
      else if c = CHR ''['' then cons_tok LBracket (lex cs)
      else if c = CHR '']'' then cons_tok RBracket (lex cs)
      else if c = CHR '':'' then cons_tok Colon (lex cs)
      else if c = CHR '','' then cons_tok Comma (lex cs)
      else if c = CHR 0x22 then
        (case unquote cs of
           None \<Rightarrow> None
         | Some (s, rest) \<Rightarrow> cons_tok (Str s) (lex rest))
      else if c = CHR ''-'' \<or> is_digit c then
        (case number (c # cs) of
           None \<Rightarrow> None
         | Some rest \<Rightarrow> cons_tok Num (lex rest))
      else if take 4 (c # cs) = ''true'' then cons_tok TrueLit (lex (drop 3 cs))
      else if take 5 (c # cs) = ''false'' then cons_tok FalseLit (lex (drop 4 cs))
      else if take 4 (c # cs) = ''null'' then cons_tok NullLit (lex (drop 3 cs))
      else None)"
  by pat_completeness auto

termination
proof (relation "measure length")
  show "wf (measure length)" by simp
next
  fix c :: char and cs x2 s rest
  assume "unquote cs = Some x2" "(s, rest) = x2"
  then have "length rest < length cs" by (auto dest: unquote_shorter)
  then show "(rest, c # cs) \<in> measure length" by simp
next
  fix c :: char and cs rest
  assume "number (c # cs) = Some rest"
  then show "(rest, c # cs) \<in> measure length" by (auto dest: number_shorter)
qed simp_all

text \<open>
  The value a sequence of tokens denotes. The tokens are read from left to right; the
  \<open>state\<close> says what may come next, and holds the arrays and objects that are open, the
  innermost first, each with the elements or members read so far (an object also with the
  name of the member whose value is being read). A value that is complete goes where the
  innermost open array or object wants it (\<open>place\<close>); when none is open the document is
  complete, and no token may follow.
\<close>

datatype json =
    JNull | JBool bool | JNumber | JString string
  | JArray "json list" | JObject "(string \<times> json) list"

datatype frame = InArray "json list" | InObject "(string \<times> json) list" string

datatype state =
    Value "frame list"
  | ValueOrClose "frame list"
  | NameOrClose "frame list"
  | Name "(string \<times> json) list" "frame list"
  | ColonDue "(string \<times> json) list" string "frame list"
  | Elements "json list" "frame list"
  | Members "(string \<times> json) list" "frame list"
  | Done json

fun place :: "json \<Rightarrow> frame list \<Rightarrow> state" where
  "place v [] = Done v"
| "place v (InArray xs # st) = Elements (xs @ [v]) st"
| "place v (InObject ms k # st) = Members (ms @ [(k, v)]) st"

fun begin_value :: "frame list \<Rightarrow> token \<Rightarrow> state option" where
  "begin_value st LBrace = Some (NameOrClose st)"
| "begin_value st LBracket = Some (ValueOrClose st)"
| "begin_value st (Str s) = Some (place (JString s) st)"
| "begin_value st Num = Some (place JNumber st)"
| "begin_value st TrueLit = Some (place (JBool True) st)"
| "begin_value st FalseLit = Some (place (JBool False) st)"
| "begin_value st NullLit = Some (place JNull st)"
| "begin_value st t = None"

fun step :: "state \<Rightarrow> token \<Rightarrow> state option" where
  "step (Value st) t = begin_value st t"
| "step (ValueOrClose st) t =
     (if t = RBracket then Some (place (JArray []) st) else begin_value (InArray [] # st) t)"
| "step (NameOrClose st) t =
     (case t of
        RBrace \<Rightarrow> Some (place (JObject []) st)
      | Str k \<Rightarrow> Some (ColonDue [] k st)
      | _ \<Rightarrow> None)"
| "step (Name ms st) t = (case t of Str k \<Rightarrow> Some (ColonDue ms k st) | _ \<Rightarrow> None)"
| "step (ColonDue ms k st) t = (if t = Colon then Some (Value (InObject ms k # st)) else None)"
| "step (Elements xs st) t =
     (case t of
        Comma \<Rightarrow> Some (Value (InArray xs # st))
      | RBracket \<Rightarrow> Some (place (JArray xs) st)
      | _ \<Rightarrow> None)"
| "step (Members ms st) t =
     (case t of
        Comma \<Rightarrow> Some (Name ms st)
      | RBrace \<Rightarrow> Some (place (JObject ms) st)
      | _ \<Rightarrow> None)"
| "step (Done v) t = None"

fun run :: "state \<Rightarrow> token list \<Rightarrow> state option" where
  "run s [] = Some s"
| "run s (t # ts) = (case step s t of None \<Rightarrow> None | Some s' \<Rightarrow> run s' ts)"

definition parse :: "token list \<Rightarrow> json option" where
  "parse ts = (case run (Value []) ts of Some (Done v) \<Rightarrow> Some v | _ \<Rightarrow> None)"

text \<open>
  The field a member sets. The name of the member is folded and compared with the folded
  names of the four fields: ASCII letters are made upper case, and the two characters
  beyond ASCII that fold to an ASCII letter, the long s \<open>U+017F\<close> and the Kelvin sign
  \<open>U+212A\<close>, are made \<open>S\<close> and \<open>K\<close>. (Every other character beyond ASCII folds
  to a character beyond ASCII and is left as it is: no field name has one.)
\<close>

definition long_s :: string where
  "long_s = [CHR 0xC5, CHR 0xBF]"

definition kelvin_sign :: string where
  "kelvin_sign = [CHR 0xE2, CHR 0x84, CHR 0xAA]"

definition to_upper :: "char \<Rightarrow> char" where
  "to_upper c =
     (if (0x61::nat) \<le> of_char c \<and> (of_char c :: nat) \<le> 0x7A
      then char_of ((of_char c :: nat) - 0x20) else c)"

function foldName :: "string \<Rightarrow> string" where
  "foldName [] = []"
| "foldName (c # cs) =
     (if take 2 (c # cs) = long_s then CHR ''S'' # foldName (drop 1 cs)
      else if take 3 (c # cs) = kelvin_sign then CHR ''K'' # foldName (drop 2 cs)
      else to_upper c # foldName cs)"
  by pat_completeness auto

termination
  by (relation "measure length") simp_all

definition field_names :: "string list" where
  "field_names = [''snippets_file'', ''snippets_dir'', ''editor'', ''filter_cmd'']"

definition is_field :: "string \<Rightarrow> bool" where
  "is_field k = (foldName k \<in> set (map foldName field_names))"

definition set_field :: "Config \<Rightarrow> string \<Rightarrow> string \<Rightarrow> Config" where
  "set_field c k v =
     (let name = foldName k in
      if name = foldName ''snippets_file'' then c\<lparr>SnippetsFile := v\<rparr>
      else if name = foldName ''snippets_dir'' then c\<lparr>SnippetsDir := v\<rparr>
      else if name = foldName ''editor'' then c\<lparr>Editor := v\<rparr>
      else if name = foldName ''filter_cmd'' then c\<lparr>FilterCmd := v\<rparr>
      else c)"

text \<open>
  \<open>json.Unmarshal\<close> into a \<open>Config\<close>. A document that is not one JSON value is a syntax
  error, and the \<open>Config\<close> is left as it was. The value \<open>null\<close> changes nothing; a
  value that is neither \<open>null\<close> nor an object is a type error. Of an object the members
  are taken in their order: a member that names no field is skipped, whatever its value;
  a member that names a field sets it when its value is a string, changes nothing when its
  value is \<open>null\<close>, and is a type error otherwise. A type error does not stop the
  reading: the other members are still set, and the error is returned at the end.
  (The library also refuses a document in which arrays and objects are nested more than
  10000 deep; that limit is left out.)
\<close>

fun member_into :: "Config \<times> error option \<Rightarrow> string \<times> json \<Rightarrow> Config \<times> error option" where
  "member_into (c, err) (k, v) =
     (if \<not> is_field k then (c, err)
      else
        (case v of
           JString s \<Rightarrow> (set_field c k s, err)
         | JNull \<Rightarrow> (c, err)
         | _ \<Rightarrow> (c, Some UnmarshalTypeError)))"

definition decode :: "Config \<Rightarrow> json \<Rightarrow> Config \<times> error option" where
  "decode c v =
     (case v of
        JNull \<Rightarrow> (c, None)
      | JObject ms \<Rightarrow> foldl member_into (c, None) ms
      | _ \<Rightarrow> (c, Some UnmarshalTypeError))"

definition Unmarshal :: "string \<Rightarrow> Config \<Rightarrow> Config \<times> error option" where
  "Unmarshal data c =
     (case lex data of
        None \<Rightarrow> (c, Some SyntaxError)
      | Some ts \<Rightarrow>
          (case parse ts of
             None \<Rightarrow> (c, Some SyntaxError)
           | Some v \<Rightarrow> decode c v))"

text \<open>
  Modelled from the spec: \<open>util.LoadJsonDataFromFile\<close>, which is not in \<open>config.go\<close>.
  The specification describes it as the helper that reads a file and deserializes its
  content into the \<open>Config\<close>, failing when the file cannot be read or holds malformed
  JSON, and taking an empty file as no data rather than as a parse error.
\<close>

definition LoadJsonDataFromFile :: "world \<Rightarrow> string \<Rightarrow> Config \<Rightarrow> Config \<times> error option" where
  "LoadJsonDataFromFile w filePath c =
     (case ReadFile w filePath of
        (data, Some err) \<Rightarrow> (c, Some err)
      | (data, None) \<Rightarrow> if data = [] then (c, None) else Unmarshal data c)"

section \<open>\<open>config.go\<close>\<close>

text \<open>
  Each function takes the world and returns the world it leaves behind together with its
  Go results; a Go result pair \<open>(value, error)\<close> is a pair whose second component is
  \<open>None\<close> for \<open>nil\<close>. \<open>Load\<close> returns either the error or the \<open>Config\<close>.
\<close>

definition stat_err :: "errno + (bool \<times> FileMode) \<Rightarrow> error option" where
  "stat_err r = (case r of Inl e \<Rightarrow> Some (PathError e) | Inr info \<Rightarrow> None)"

definition getOrCreatePath :: "world \<Rightarrow> string \<Rightarrow> FileMode \<Rightarrow> bool \<Rightarrow> world \<times> error option" where
  "getOrCreatePath w loc perm isDir =
     (let dirPath = (if isDir then loc else Dir loc) in
      if IsNotExist (stat_err (Stat w loc)) then
        (case MkdirAll w dirPath perm of
           (w1, Some err) \<Rightarrow> (w1, Some err)
         | (w1, None) \<Rightarrow>
             if \<not> isDir then
               (case Create w1 loc of
                  (w2, Some err) \<Rightarrow> (w2, Some err)
                | (w2, None) \<Rightarrow> (w2, None))
             else (w1, None))
      else (w, None))"

definition GetDefaultConfigHome :: "world \<Rightarrow> string" where
  "GetDefaultConfigHome w =
     (if GOOS w = ''darwin'' then Getenv w ''HOME''
      else if GOOS w = ''linux'' then
        (let configHome = Getenv w ''XDG_CONFIG_HOME''
         in if configHome = [] then Getenv w ''HOME'' else configHome)
      else [])"

definition GetDefaultConfigFile :: "world \<Rightarrow> string \<Rightarrow> world \<times> string \<times> error option" where
  "GetDefaultConfigFile w configHome =
     (let defaultConfigFileLoc = Join [configHome, DEFAULT_CONFIG_FILE] in
      case getOrCreatePath w defaultConfigFileLoc 0x1ED False of
        (w', Some err) \<Rightarrow> (w', [], Some err)
      | (w', None) \<Rightarrow> (w', defaultConfigFileLoc, None))"

definition GetDefaultSnippetsDir :: "world \<Rightarrow> string \<Rightarrow> world \<times> string \<times> error option" where
  "GetDefaultSnippetsDir w configHome =
     (let defaultSnippetsDir = Join [configHome, DEFAULT_SNIPPETS_DIR] in
      case getOrCreatePath w defaultSnippetsDir 0x1ED True of
        (w', Some err) \<Rightarrow> (w', [], Some err)
      | (w', None) \<Rightarrow> (w', defaultSnippetsDir, None))"

definition GetDefaultSnippetsFile :: "world \<Rightarrow> string \<Rightarrow> world \<times> string \<times> error option" where
  "GetDefaultSnippetsFile w configHome =
     (let defaultSnippetsFile = Join [configHome, DEFAULT_SNIPPETS_FILE] in
      case getOrCreatePath w defaultSnippetsFile 0x1ED False of
        (w', Some err) \<Rightarrow> (w', [], Some err)
      | (w', None) \<Rightarrow> (w', defaultSnippetsFile, None))"

definition GetDefaultEditor :: "world \<Rightarrow> string \<times> error option" where
  "GetDefaultEditor w =
     (case LookupEnv w ''EDITOR'' of
        (editorPath, suc) \<Rightarrow>
          if \<not> suc then
            (case LookPath w DEFAULT_EDITOR of
               (editorPath, Some err) \<Rightarrow> ([], Some EditorNotFound)
             | (editorPath, None) \<Rightarrow> (editorPath, None))
          else (editorPath, None))"

definition GetDefaultFilterCmd :: "world \<Rightarrow> string \<times> error option" where
  "GetDefaultFilterCmd w =
     (let (filterCmdPath, err) = LookPath w DEFAULT_FILTER_CMD_PECO;
          filterCmdPath = (if err \<noteq> None then [] else filterCmdPath);
          (filterCmdPath, err) = LookPath w DEFAULT_FILTER_CMD_FZF;
          filterCmdPath = (if err \<noteq> None then [] else filterCmdPath)
      in if filterCmdPath = [] then ([], Some MissingDefaultFilterCmdError)
         else (filterCmdPath, None))"

definition IsNew :: "Config \<Rightarrow> bool" where
  "IsNew c = (SnippetsFile c = [] \<and> SnippetsDir c = [] \<and> Editor c = [] \<and> FilterCmd c = [])"

definition Save :: "util \<Rightarrow> world \<Rightarrow> Config \<Rightarrow> world \<times> error option" where
  "Save u w c =
     (let configHome = GetDefaultConfigHome w in
      case GetDefaultConfigFile w configHome of
        (w1, confFile, Some err) \<Rightarrow> (w1, Some err)
      | (w1, confFile, None) \<Rightarrow>
          (case MarshalIndent c u of
             (data, Some err) \<Rightarrow> (w1, Some err)
           | (data, None) \<Rightarrow> WriteFile w1 confFile data 0x1A4))"

text \<open>
  \<open>Load\<close> in parts. \<open>Load_setFilterCmd\<close> is the end of the function, from the test
  of what the detection of the filter command returned to the \<open>return\<close>, as a function of
  that result: any error but \<open>MissingDefaultFilterCmdError\<close> is returned; otherwise the
  field is set and \<open>Save\<close> is called as a statement, its result dropped.
  \<open>Load_with\<close> is the body of \<open>Load\<close> with the function it calls for the filter command
  as a parameter, and \<open>Load\<close> is that body with \<open>GetDefaultFilterCmd\<close>. The parameter is
  there for the test at line 152: \<open>GetDefaultFilterCmd\<close> itself returns no error other
  than \<open>MissingDefaultFilterCmdError\<close>, so what \<open>Load\<close> does with another error can
  only be said of its body.
\<close>

definition Load_setFilterCmd ::
  "util \<Rightarrow> world \<Rightarrow> Config \<Rightarrow> string \<times> error option \<Rightarrow> world \<times> (error + Config)" where
  "Load_setFilterCmd u w config r =
     (case r of
        (filterCmd, err) \<Rightarrow>
          if err \<noteq> None \<and> err \<noteq> Some MissingDefaultFilterCmdError then (w, Inl (the err))
          else
            (let config = config\<lparr>FilterCmd := filterCmd\<rparr>;
                 (w', ignored) = Save u w config
             in (w', Inr config)))"

definition empty_Config :: Config where
  "empty_Config = \<lparr>SnippetsFile = [], SnippetsDir = [], Editor = [], FilterCmd = []\<rparr>"

definition Load_with ::
  "(world \<Rightarrow> string \<times> error option) \<Rightarrow> util \<Rightarrow> world \<Rightarrow> world \<times> (error + Config)" where
  "Load_with detect u w =
     (let configHome = GetDefaultConfigHome w in
      case GetDefaultConfigFile w configHome of
        (w1, configFile, Some err) \<Rightarrow> (w1, Inl err)
      | (w1, configFile, None) \<Rightarrow>
          (case LoadJsonDataFromFile w1 configFile empty_Config of
             (config, Some err) \<Rightarrow> (w1, Inl err)
           | (config, None) \<Rightarrow>
               if IsNew config then
                 (case GetDefaultSnippetsFile w1 configHome of
                    (w2, snippetsFile, Some err) \<Rightarrow> (w2, Inl err)
                  | (w2, snippetsFile, None) \<Rightarrow>
                      (let config = config\<lparr>SnippetsFile := snippetsFile\<rparr> in
                       case GetDefaultSnippetsDir w2 configHome of
                         (w3, snippetsDir, Some err) \<Rightarrow> (w3, Inl err)
                       | (w3, snippetsDir, None) \<Rightarrow>
                           (let config = config\<lparr>SnippetsDir := snippetsDir\<rparr> in
                            case GetDefaultEditor w3 of
                              (editor, Some err) \<Rightarrow> (w3, Inl err)
                            | (editor, None) \<Rightarrow>
                                (let config = config\<lparr>Editor := editor\<rparr>
                                 in Load_setFilterCmd u w3 config (detect w3)))))
               else (w1, Inr config)))"

definition Load :: "util \<Rightarrow> world \<Rightarrow> world \<times> (error + Config)" where
  "Load u w = Load_with GetDefaultFilterCmd u w"

section \<open>Notions for the statements\<close>

subsection \<open>Relations between worlds\<close>

definition same_process :: "world \<Rightarrow> world \<Rightarrow> bool" where
  "same_process w w' =
     (GOOS w' = GOOS w \<and> environ w' = environ w \<and> path_lookup w' = path_lookup w \<and>
      cwd w' = cwd w \<and> umask w' = umask w)"

definition only_new_dirs :: "world \<Rightarrow> world \<Rightarrow> bool" where
  "only_new_dirs w w' =
     (same_process w w' \<and>
      (\<forall>loc. files w' loc = files w loc \<or> (files w loc = None \<and> (\<exists>m. files w' loc = Some (DirNode m)))))"

definition dirs_kept :: "world \<Rightarrow> world \<Rightarrow> bool" where
  "dirs_kept w w' =
     (same_process w w' \<and>
      (\<forall>loc m. files w loc = Some (DirNode m) \<longrightarrow> files w' loc = Some (DirNode m)))"

subsection \<open>The file a path names\<close>

text \<open>
  \<open>file_node\<close> is the mode and the bytes of the regular file a path names, if it names
  one; \<open>config_path\<close> is the path of the configuration file; \<open>before_Save\<close> is the
  world \<open>Load\<close> has made when it comes to call \<open>Save\<close> on an existing configuration
  file. A \<open>normal\<close> name is an element of a path other than \<open>.\<close> and \<open>..\<close>.
\<close>

definition file_node :: "world \<Rightarrow> string \<Rightarrow> (FileMode \<times> string) option" where
  "file_node w p =
     (case namei w p of
        Inl e \<Rightarrow> None
      | Inr loc \<Rightarrow>
          (case files w loc of
             Some (FileNode m b) \<Rightarrow> Some (m, b)
           | _ \<Rightarrow> None))"

definition file_content :: "world \<Rightarrow> string \<Rightarrow> string option" where
  "file_content w p = map_option snd (file_node w p)"

definition config_path :: "world \<Rightarrow> string" where
  "config_path w = Join [GetDefaultConfigHome w, DEFAULT_CONFIG_FILE]"

definition before_Save :: "world \<Rightarrow> world" where
  "before_Save w =
     fst (GetDefaultSnippetsDir
            (fst (GetDefaultSnippetsFile
                    (fst (GetDefaultConfigFile w (GetDefaultConfigHome w)))
                    (GetDefaultConfigHome w)))
            (GetDefaultConfigHome w))"

definition normal :: "string \<Rightarrow> bool" where
  "normal x = (x \<noteq> [] \<and> x \<noteq> ''.'' \<and> x \<noteq> ''..'' \<and> CHR ''/'' \<notin> set x)"

subsection \<open>Text that survives the JSON document\<close>

text \<open>
  \<open>valid_utf8\<close>: the string is a sequence of well-formed UTF-8 sequences. \<open>coerce\<close>
  replaces every byte that starts no well-formed sequence by the replacement character
  and keeps the rest. \<open>white_indent\<close>: prefix and indent are JSON white space.
  \<open>utf8_text\<close>: they are, and the four fields are well-formed UTF-8.
\<close>

definition white :: "string \<Rightarrow> bool" where
  "white s = list_all is_space s"

definition white_indent :: "util \<Rightarrow> bool" where
  "white_indent u = (white (JSON_MARSHAL_PREFIX u) \<and> white (JSON_MARSHAL_INDENT u))"

function valid_utf8 :: "string \<Rightarrow> bool" where
  "valid_utf8 [] = True"
| "valid_utf8 (c # cs) =
     (0 < rune_len (c # cs) \<and> valid_utf8 (drop (rune_len (c # cs) - 1) cs))"
  by pat_completeness auto

termination
  by (relation "measure length") simp_all

declare valid_utf8.simps [simp del]

function coerce :: "string \<Rightarrow> string" where
  "coerce [] = []"
| "coerce (c # cs) =
     (if rune_len (c # cs) = 0 then replacement @ coerce cs
      else take (rune_len (c # cs)) (c # cs) @ coerce (drop (rune_len (c # cs) - 1) cs))"
  by pat_completeness auto

termination
  by (relation "measure length") simp_all

declare coerce.simps [simp del]

definition coerce_Config :: "Config \<Rightarrow> Config" where
  "coerce_Config c =
     \<lparr>SnippetsFile = coerce (SnippetsFile c), SnippetsDir = coerce (SnippetsDir c),
      Editor = coerce (Editor c), FilterCmd = coerce (FilterCmd c)\<rparr>"

definition utf8_text :: "util \<Rightarrow> Config \<Rightarrow> bool" where
  "utf8_text u c =
     (white_indent u \<and>
      valid_utf8 (SnippetsFile c) \<and> valid_utf8 (SnippetsDir c) \<and>
      valid_utf8 (Editor c) \<and> valid_utf8 (FilterCmd c))"

subsection \<open>The worlds of the examples\<close>

text \<open>
  \<open>first_run\<close> is a Linux account with home \<open>/home/u\<close>, \<open>vim\<close> on \<open>PATH\<close>, no
  filter command, no \<open>.corgi\<close> directory yet, and \<open>umask 022\<close>. The other worlds differ
  from it in one respect each. Modes: \<open>0x1ED\<close> is \<open>0755\<close>, \<open>0x1A4\<close> is \<open>0644\<close>,
  \<open>0x16D\<close> is \<open>0555\<close>, \<open>0x124\<close> is \<open>0444\<close>.
\<close>

definition u0 :: util where
  "u0 = \<lparr>JSON_MARSHAL_PREFIX = [], JSON_MARSHAL_INDENT = ''  ''\<rparr>"

definition home_tree :: "string list \<rightharpoonup> node" where
  "home_tree = [[] \<mapsto> DirNode 0x1ED, [''home''] \<mapsto> DirNode 0x1ED, [''home'', ''u''] \<mapsto> DirNode 0x1ED]"

definition first_run :: world where
  "first_run =
     \<lparr>GOOS = ''linux'', environ = [''HOME'' \<mapsto> ''/home/u''],
      path_lookup = [''vim'' \<mapsto> ''/usr/bin/vim''], cwd = [], umask = 0x12,
      files = home_tree\<rparr>"

definition first_run_config :: Config where
  "first_run_config =
     \<lparr>SnippetsFile = ''/home/u/.corgi/snippets.json'', SnippetsDir = ''/home/u/.corgi/snippets'',
      Editor = ''/usr/bin/vim'', FilterCmd = []\<rparr>"

definition on_darwin :: world where
  "on_darwin = first_run\<lparr>GOOS := ''darwin'', environ := [''HOME'' \<mapsto> ''/Users/u'']\<rparr>"

definition with_xdg :: world where
  "with_xdg = first_run\<lparr>environ := [''HOME'' \<mapsto> ''/home/u'', ''XDG_CONFIG_HOME'' \<mapsto> ''/home/u/.config'']\<rparr>"

definition on_windows :: world where
  "on_windows = first_run\<lparr>GOOS := ''windows''\<rparr>"

definition peco_only :: world where
  "peco_only = first_run\<lparr>path_lookup := [''vim'' \<mapsto> ''/usr/bin/vim'', ''peco'' \<mapsto> ''/usr/bin/peco'']\<rparr>"

definition empty_conf :: world where
  "empty_conf =
     first_run\<lparr>files := home_tree
        ([''home'', ''u'', ''.corgi''] \<mapsto> DirNode 0x1ED,
         [''home'', ''u'', ''.corgi'', ''corgi_conf.json''] \<mapsto> FileNode 0x1A4 [])\<rparr>"

definition no_editor_empty_conf :: world where
  "no_editor_empty_conf = empty_conf\<lparr>path_lookup := Map.empty\<rparr>"

definition readonly_conf :: world where
  "readonly_conf =
     first_run\<lparr>files := home_tree
        ([''home'', ''u'', ''.corgi''] \<mapsto> DirNode 0x1ED,
         [''home'', ''u'', ''.corgi'', ''corgi_conf.json''] \<mapsto> FileNode 0x124 [])\<rparr>"

definition readonly_corgi :: world where
  "readonly_corgi =
     first_run\<lparr>files := home_tree
        ([''home'', ''u'', ''.corgi''] \<mapsto> DirNode 0x16D,
         [''home'', ''u'', ''.corgi'', ''corgi_conf.json''] \<mapsto> FileNode 0x1A4 [])\<rparr>"

definition readonly_home :: world where
  "readonly_home = first_run\<lparr>files := home_tree([''home'', ''u''] \<mapsto> DirNode 0x16D)\<rparr>"

definition spec_document :: string where
  \<open>spec_document = ''{"snippets_file":"/a","snippets_dir":"/b","editor":"/c","filter_cmd":"/d"}''\<close>

definition configured :: world where
  "configured =
     first_run\<lparr>files := home_tree
        ([''home'', ''u'', ''.corgi''] \<mapsto> DirNode 0x1ED,
         [''home'', ''u'', ''.corgi'', ''corgi_conf.json''] \<mapsto> FileNode 0x1A4 spec_document)\<rparr>"

definition editor_only :: world where
  \<open>editor_only =
     first_run\<lparr>files := home_tree
        ([''home'', ''u'', ''.corgi''] \<mapsto> DirNode 0x1ED,
         [''home'', ''u'', ''.corgi'', ''corgi_conf.json''] \<mapsto> FileNode 0x1A4 ''{"editor":"/c"}'')\<rparr>\<close>

section \<open>Lemmas\<close>

subsection \<open>What the operations leave as it was\<close>

text \<open>
  No operation changes the process (\<open>same_process\<close>). \<open>Mkdir\<close> and \<open>MkdirAll\<close>
  only add directories (\<open>only_new_dirs\<close>); opening, creating and writing files leave
  every directory as it was (\<open>dirs_kept\<close>), and so does everything \<open>config.go\<close> does.
  A property that is reflexive and transitive and holds across \<open>Mkdir\<close> holds across
  \<open>MkdirAll\<close>.
\<close>

declare MkdirAll.simps [simp del]

lemma same_process_refl [simp]: "same_process w w"
  by (simp add: same_process_def)

lemma same_process_trans: "same_process a b \<Longrightarrow> same_process b c \<Longrightarrow> same_process a c"
  by (simp add: same_process_def)

lemma only_new_dirs_refl [simp]: "only_new_dirs w w"
  by (simp add: only_new_dirs_def)

lemma only_new_dirs_trans: "only_new_dirs a b \<Longrightarrow> only_new_dirs b c \<Longrightarrow> only_new_dirs a c"
  unfolding only_new_dirs_def
  apply (intro conjI allI)
   apply (blast intro: same_process_trans)
  subgoal for loc
    apply (elim conjE)
    apply (erule_tac x=loc in allE)+
    apply auto
    done
  done

lemma Mkdir_only_new_dirs: "only_new_dirs w (fst (Mkdir w p perm))"
  by (auto simp: Mkdir_def create_node_def only_new_dirs_def same_process_def
      split: sum.splits option.splits node.splits)

lemma Mkdir_failure_unchanged: "Mkdir w p perm = (w', Some e) \<Longrightarrow> w' = w"
  by (auto simp: Mkdir_def create_node_def split: sum.splits option.splits node.splits if_splits)

lemma MkdirAll_rel:
  assumes refl: "\<And>w. R w w"
    and trans: "\<And>a b c. R a b \<Longrightarrow> R b c \<Longrightarrow> R a c"
    and step: "\<And>w p perm. R w (fst (Mkdir w p perm))"
  shows "R w (fst (MkdirAll w p perm))"
proof (induction w p perm rule: MkdirAll.induct)
  case (1 w p perm)
  show ?case
  proof (cases "Stat w p")
    case (Inr info)
    then show ?thesis
      by (subst MkdirAll.simps) (auto simp: refl split: prod.splits)
  next
    case (Inl e)
    define par where "par = (if 1 < parent_end p then MkdirAll w (take (parent_end p - 1) p) perm else (w, None))"
    have par_rel: "R w (fst par)"
      using "1.IH" [OF Inl] by (auto simp: par_def refl)
    have unf: "MkdirAll w p perm =
        (case par of
           (w1, Some err) \<Rightarrow> (w1, Some err)
         | (w1, None) \<Rightarrow>
             (case Mkdir w1 p perm of
                (w2, None) \<Rightarrow> (w2, None)
              | (w2, Some err) \<Rightarrow>
                  (case Stat w2 p of
                     Inr (isdir, m) \<Rightarrow> if isdir then (w2, None) else (w2, Some err)
                   | Inl e1 \<Rightarrow> (w2, Some err))))"
      by (subst MkdirAll.simps) (simp add: Inl par_def)
    obtain w1 r1 where par: "par = (w1, r1)" by (cases par)
    show ?thesis
    proof (cases r1)
      case (Some err)
      with par par_rel unf show ?thesis by simp
    next
      case None
      obtain w2 r2 where mk: "Mkdir w1 p perm = (w2, r2)" by (cases "Mkdir w1 p perm")
      have "R w1 w2" using step [of w1 p perm] mk by simp
      with par par_rel have "R w w2" by (auto intro: trans)
      moreover have "fst (MkdirAll w p perm) = w2"
        using unf par None mk by (auto split: option.splits sum.splits prod.splits)
      ultimately show ?thesis by simp
    qed
  qed
qed

lemma MkdirAll_only_new_dirs: "only_new_dirs w (fst (MkdirAll w p perm))"
  by (rule MkdirAll_rel) (auto intro: only_new_dirs_trans Mkdir_only_new_dirs)

lemma dirs_kept_refl [simp]: "dirs_kept w w"
  by (simp add: dirs_kept_def)

lemma dirs_kept_trans: "dirs_kept a b \<Longrightarrow> dirs_kept b c \<Longrightarrow> dirs_kept a c"
  unfolding dirs_kept_def by (blast intro: same_process_trans)

lemma only_new_dirs_kept: "only_new_dirs w w' \<Longrightarrow> dirs_kept w w'"
  unfolding only_new_dirs_def dirs_kept_def
  by (metis option.distinct(1))

lemma OpenFile_dirs_kept: "dirs_kept w (fst (OpenFile w p acc creat trunc perm))"
  by (auto simp: OpenFile_def create_node_def dirs_kept_def same_process_def
      split: sum.splits option.splits node.splits)

lemma OpenFile_failure_unchanged:
  "OpenFile w p acc creat trunc perm = (w', Inl e) \<Longrightarrow> w' = w"
  by (auto simp: OpenFile_def create_node_def
      split: sum.splits option.splits node.splits if_splits)

lemma Create_dirs_kept: "dirs_kept w (fst (Create w p))"
  using OpenFile_dirs_kept [of w p O_RDWR True True "0x1B6"]
  by (auto simp: Create_def split: prod.splits sum.splits)

lemma Create_failure_unchanged: "Create w p = (w', Some e) \<Longrightarrow> w' = w"
  by (auto simp: Create_def split: prod.splits sum.splits dest: OpenFile_failure_unchanged)

lemma WriteFile_dirs_kept: "dirs_kept w (fst (WriteFile w p data perm))"
proof -
  obtain w1 r where o: "OpenFile w p O_WRONLY True True perm = (w1, r)"
    by (cases "OpenFile w p O_WRONLY True True perm")
  have k: "dirs_kept w w1"
    using OpenFile_dirs_kept [of w p O_WRONLY True True perm] o by simp
  show ?thesis
  proof (cases r)
    case (Inl e)
    with o k show ?thesis by (simp add: WriteFile_def)
  next
    case (Inr fd)
    show ?thesis
    proof (cases "files w1 fd")
      case None
      with o k Inr show ?thesis by (simp add: WriteFile_def)
    next
      case (Some n)
      show ?thesis
      proof (cases n)
        case (DirNode m)
        with o k Inr Some show ?thesis by (simp add: WriteFile_def)
      next
        case (FileNode m b)
        have "dirs_kept w1 (w1\<lparr>files := (files w1)(fd \<mapsto> FileNode m data)\<rparr>)"
          using Some FileNode by (auto simp: dirs_kept_def same_process_def)
        with k have "dirs_kept w (w1\<lparr>files := (files w1)(fd \<mapsto> FileNode m data)\<rparr>)"
          by (rule dirs_kept_trans)
        with o Inr Some FileNode show ?thesis by (simp add: WriteFile_def)
      qed
    qed
  qed
qed

lemma MkdirAll_dirs_kept: "dirs_kept w (fst (MkdirAll w p perm))"
  by (rule only_new_dirs_kept) (rule MkdirAll_only_new_dirs)

lemma getOrCreatePath_dirs_kept: "dirs_kept w (fst (getOrCreatePath w loc perm isDir))"
proof (cases "IsNotExist (stat_err (Stat w loc))")
  case False
  then show ?thesis by (simp add: getOrCreatePath_def)
next
  case True
  define dirPath where "dirPath = (if isDir then loc else Dir loc)"
  obtain w1 r1 where m: "MkdirAll w dirPath perm = (w1, r1)"
    by (cases "MkdirAll w dirPath perm")
  have k1: "dirs_kept w w1" using MkdirAll_dirs_kept [of w dirPath perm] m by simp
  obtain w2 r2 where c: "Create w1 loc = (w2, r2)" by (cases "Create w1 loc")
  have k2: "dirs_kept w w2"
    using Create_dirs_kept [of w1 loc] c k1 by (auto intro: dirs_kept_trans)
  show ?thesis
    using True m c k1 k2
    by (auto simp: getOrCreatePath_def dirPath_def Let_def split: option.splits)
qed

lemma dirs_kept_home: "dirs_kept w w' \<Longrightarrow> GetDefaultConfigHome w' = GetDefaultConfigHome w"
  by (simp add: dirs_kept_def same_process_def GetDefaultConfigHome_def Getenv_def Let_def)

lemma dirs_kept_editor: "dirs_kept w w' \<Longrightarrow> GetDefaultEditor w' = GetDefaultEditor w"
  by (simp add: dirs_kept_def same_process_def GetDefaultEditor_def LookupEnv_def LookPath_def
      split: option.splits)

lemma dirs_kept_filter: "dirs_kept w w' \<Longrightarrow> GetDefaultFilterCmd w' = GetDefaultFilterCmd w"
  by (simp add: dirs_kept_def same_process_def GetDefaultFilterCmd_def LookPath_def)

lemma GetDefaultConfigFile_dirs_kept: "dirs_kept w (fst (GetDefaultConfigFile w h))"
  using getOrCreatePath_dirs_kept [of w "Join [h, DEFAULT_CONFIG_FILE]" "0x1ED" False]
  by (auto simp: GetDefaultConfigFile_def Let_def split: prod.splits option.splits)

lemma GetDefaultSnippetsFile_dirs_kept: "dirs_kept w (fst (GetDefaultSnippetsFile w h))"
  using getOrCreatePath_dirs_kept [of w "Join [h, DEFAULT_SNIPPETS_FILE]" "0x1ED" False]
  by (auto simp: GetDefaultSnippetsFile_def Let_def split: prod.splits option.splits)

lemma GetDefaultSnippetsDir_dirs_kept: "dirs_kept w (fst (GetDefaultSnippetsDir w h))"
  using getOrCreatePath_dirs_kept [of w "Join [h, DEFAULT_SNIPPETS_DIR]" "0x1ED" True]
  by (auto simp: GetDefaultSnippetsDir_def Let_def split: prod.splits option.splits)

subsection \<open>The branches of \<open>Load\<close>\<close>

text \<open>
  \<open>GetDefaultFilterCmd\<close> depends on the lookup of \<open>fzf\<close> alone. When the parsed
  \<open>Config\<close> is new and the defaults are found, \<open>Load\<close> ends in \<open>Load_setFilterCmd\<close>
  (\<open>Load_with_population\<close>, \<open>Load_population\<close>); when it is not new, \<open>Load\<close> returns it and changes nothing
  (\<open>Load_not_new\<close>).
\<close>

lemma GetDefaultFilterCmd_fzf:
  "GetDefaultFilterCmd w =
     (case path_lookup w DEFAULT_FILTER_CMD_FZF of
        None \<Rightarrow> ([], Some MissingDefaultFilterCmdError)
      | Some p \<Rightarrow> if p = [] then ([], Some MissingDefaultFilterCmdError) else (p, None))"
  by (simp add: GetDefaultFilterCmd_def LookPath_def Let_def split: option.splits prod.splits)

lemma Load_setFilterCmd_Save:
  "err = None \<or> err = Some MissingDefaultFilterCmdError \<Longrightarrow>
   Load_setFilterCmd u w c (p, err) =
     (fst (Save u w (c\<lparr>FilterCmd := p\<rparr>)), Inr (c\<lparr>FilterCmd := p\<rparr>))"
  by (auto simp: Load_setFilterCmd_def Let_def split: prod.splits)

lemma Load_with_population:
  assumes cf: "GetDefaultConfigFile w (GetDefaultConfigHome w) = (w1, configFile, None)"
    and js: "LoadJsonDataFromFile w1 configFile empty_Config = (config, None)"
    and new: "IsNew config"
    and sf: "GetDefaultSnippetsFile w1 (GetDefaultConfigHome w) = (w2, snippetsFile, None)"
    and sd: "GetDefaultSnippetsDir w2 (GetDefaultConfigHome w) = (w3, snippetsDir, None)"
    and ed: "GetDefaultEditor w = (editor, None)"
  shows "dirs_kept w w3"
    and "Load_with detect u w =
     Load_setFilterCmd u w3
       (config\<lparr>SnippetsFile := snippetsFile, SnippetsDir := snippetsDir, Editor := editor\<rparr>)
       (detect w3)"
proof -
  have k1: "dirs_kept w w1" using GetDefaultConfigFile_dirs_kept [of w "GetDefaultConfigHome w"] cf by simp
  have k2: "dirs_kept w1 w2" using GetDefaultSnippetsFile_dirs_kept [of w1 "GetDefaultConfigHome w"] sf by simp
  have k3: "dirs_kept w2 w3" using GetDefaultSnippetsDir_dirs_kept [of w2 "GetDefaultConfigHome w"] sd by simp
  show k: "dirs_kept w w3" using k1 k2 k3 by (blast intro: dirs_kept_trans)
  have "GetDefaultEditor w3 = (editor, None)"
    using k ed by (simp add: dirs_kept_editor)
  then show "Load_with detect u w =
     Load_setFilterCmd u w3
       (config\<lparr>SnippetsFile := snippetsFile, SnippetsDir := snippetsDir, Editor := editor\<rparr>)
       (detect w3)"
    using cf js new sf sd by (simp add: Load_with_def Let_def)
qed

lemma Load_population:
  assumes cf: "GetDefaultConfigFile w (GetDefaultConfigHome w) = (w1, configFile, None)"
    and js: "LoadJsonDataFromFile w1 configFile empty_Config = (config, None)"
    and new: "IsNew config"
    and sf: "GetDefaultSnippetsFile w1 (GetDefaultConfigHome w) = (w2, snippetsFile, None)"
    and sd: "GetDefaultSnippetsDir w2 (GetDefaultConfigHome w) = (w3, snippetsDir, None)"
    and ed: "GetDefaultEditor w = (editor, None)"
  shows "Load u w =
     Load_setFilterCmd u w3
       (config\<lparr>SnippetsFile := snippetsFile, SnippetsDir := snippetsDir, Editor := editor\<rparr>)
       (GetDefaultFilterCmd w)"
  using Load_with_population(1) [OF assms] Load_with_population(2) [OF assms, of GetDefaultFilterCmd u]
  by (simp add: Load_def dirs_kept_filter)

lemma pair_fstI: "snd x = y \<Longrightarrow> x = (fst x, y)"
  by (cases x) simp

lemma ReadFile_Stat:
  assumes "ReadFile w p = (data, None)"
  shows "\<exists>m. Stat w p = Inr (False, m)"
  using assms
  by (auto simp: ReadFile_def OpenFile_def Stat_def writes_def
      split: sum.splits option.splits node.splits if_splits prod.splits)

lemma getOrCreatePath_exists:
  "Stat w loc = Inr info \<Longrightarrow> getOrCreatePath w loc perm isDir = (w, None)"
  by (simp add: getOrCreatePath_def IsNotExist_def stat_err_def)

lemma LoadJsonDataFromFile_ReadFile:
  "LoadJsonDataFromFile w p c0 = (c, None) \<Longrightarrow> \<exists>data. ReadFile w p = (data, None)"
  by (auto simp: LoadJsonDataFromFile_def split: prod.splits option.splits)

lemma Load_not_new:
  assumes js: "LoadJsonDataFromFile w (Join [GetDefaultConfigHome w, DEFAULT_CONFIG_FILE])
                 empty_Config = (c, None)"
    and new: "\<not> IsNew c"
  shows "Load u w = (w, Inr c)"
proof -
  let ?cfg = "Join [GetDefaultConfigHome w, DEFAULT_CONFIG_FILE]"
  from js obtain data where "ReadFile w ?cfg = (data, None)"
    by (blast dest: LoadJsonDataFromFile_ReadFile)
  then obtain m where "Stat w ?cfg = Inr (False, m)"
    by (blast dest: ReadFile_Stat)
  then have "getOrCreatePath w ?cfg 0x1ED False = (w, None)"
    by (rule getOrCreatePath_exists)
  then have "GetDefaultConfigFile w (GetDefaultConfigHome w) = (w, ?cfg, None)"
    by (simp add: GetDefaultConfigFile_def)
  with js new show ?thesis
    by (simp add: Load_def Load_with_def)
qed

subsection \<open>Calling \<open>MkdirAll\<close> and \<open>getOrCreatePath\<close> again\<close>

text \<open>
  A path that resolves keeps resolving to the same location when directories are kept.
  After a successful \<open>MkdirAll\<close> the path is a directory; a path that resolves
  has a parent that is a directory (\<open>namei_parent\<close>, by the shape of the string).
  So a second \<open>MkdirAll\<close> changes nothing and fails exactly if the first one did
  (\<open>MkdirAll_again\<close>), and likewise \<open>getOrCreatePath\<close>.
\<close>

lemma walk_dirs_kept:
  assumes "walk fs s cs = Inr L"
    and "\<And>loc m. fs loc = Some (DirNode m) \<Longrightarrow> fs' loc = Some (DirNode m)"
  shows "walk fs' s cs = Inr L"
  using assms(1)
proof (induction cs arbitrary: s)
  case Nil
  then show ?case by simp
next
  case (Cons c cs)
  from Cons.prems obtain m where d: "fs s = Some (DirNode m)" and x: "can_search m"
    by (auto split: option.splits node.splits if_splits)
  have d': "fs' s = Some (DirNode m)" using d by (rule assms(2))
  show ?case
    using Cons.prems Cons.IH d d' x by (auto split: if_splits)
qed

lemma namei_dirs_kept:
  "dirs_kept w w' \<Longrightarrow> namei w p = Inr L \<Longrightarrow> namei w' p = Inr L"
  unfolding namei_def dirs_kept_def same_process_def
  by (auto split: if_splits intro: walk_dirs_kept)

lemma Mkdir_success_Stat:
  assumes "Mkdir w p perm = (w', None)"
  shows "\<exists>m. Stat w' p = Inr (True, m)"
proof -
  from assms obtain L where n: "namei w p = Inr L"
    and w': "w' = w\<lparr>files := (files w)(L \<mapsto> DirNode (new_mode w perm))\<rparr>"
    by (auto simp: Mkdir_def create_node_def
        split: sum.splits option.splits node.splits if_splits)
  have "dirs_kept w w'"
    using Mkdir_only_new_dirs [of w p perm] assms by (auto intro: only_new_dirs_kept)
  from this n have "namei w' p = Inr L" by (rule namei_dirs_kept)
  with w' show ?thesis by (simp add: Stat_def)
qed

lemma MkdirAll_unfold_missing:
  assumes "Stat w p = Inl e"
  shows "MkdirAll w p perm =
     (case (if 1 < parent_end p then MkdirAll w (take (parent_end p - 1) p) perm
            else (w, None)) of
        (w1, Some err) \<Rightarrow> (w1, Some err)
      | (w1, None) \<Rightarrow>
          (case Mkdir w1 p perm of
             (w2, None) \<Rightarrow> (w2, None)
           | (w2, Some err) \<Rightarrow>
               (case Stat w2 p of
                  Inr (isdir, m) \<Rightarrow> if isdir then (w2, None) else (w2, Some err)
                | Inl e1 \<Rightarrow> (w2, Some err))))"
  by (subst MkdirAll.simps) (simp add: assms)

lemma MkdirAll_on_dir: "Stat w p = Inr (True, m) \<Longrightarrow> MkdirAll w p perm = (w, None)"
  by (subst MkdirAll.simps) simp

lemma MkdirAll_on_file:
  "Stat w p = Inr (False, m) \<Longrightarrow> MkdirAll w p perm = (w, Some (PathError ENOTDIR))"
  by (subst MkdirAll.simps) simp

lemma MkdirAll_success_Stat:
  assumes "MkdirAll w p perm = (w', None)"
  shows "\<exists>m. Stat w' p = Inr (True, m)"
proof (cases "Stat w p")
  case (Inr info)
  obtain isdir m where info: "info = (isdir, m)" by (cases info)
  show ?thesis
  proof (cases isdir)
    case True
    with Inr info assms show ?thesis by (simp add: MkdirAll_on_dir)
  next
    case False
    with Inr info assms show ?thesis by (simp add: MkdirAll_on_file)
  qed
next
  case (Inl e)
  define par where
    "par = (if 1 < parent_end p then MkdirAll w (take (parent_end p - 1) p) perm else (w, None))"
  obtain w1 r1 where par: "par = (w1, r1)" by (cases par)
  obtain w2 r2 where mk: "Mkdir w1 p perm = (w2, r2)" by (cases "Mkdir w1 p perm")
  from assms have u:
    "(case par of
        (w1, Some err) \<Rightarrow> (w1, Some err)
      | (w1, None) \<Rightarrow>
          (case Mkdir w1 p perm of
             (w2, None) \<Rightarrow> (w2, None)
           | (w2, Some err) \<Rightarrow>
               (case Stat w2 p of
                  Inr (isdir, m) \<Rightarrow> if isdir then (w2, None) else (w2, Some err)
                | Inl e1 \<Rightarrow> (w2, Some err)))) = (w', None)"
    unfolding par_def by (simp add: MkdirAll_unfold_missing [OF Inl])
  show ?thesis
  proof (cases r2)
    case None
    with u par mk have "w' = w2" by (auto split: option.splits)
    with mk None show ?thesis by (auto dest: Mkdir_success_Stat)
  next
    case (Some err)
    with u par mk show ?thesis
      by (auto split: option.splits sum.splits prod.splits if_splits)
  qed
qed

lemma split_on_nonempty [simp]: "split_on d s \<noteq> []"
  by (induction s) (auto split: list.splits)

lemma split_on_append: "split_on d (a @ d # b) = split_on d a @ split_on d b"
  by (induction a) (auto split: list.splits)

lemma split_on_none: "d \<notin> set s \<Longrightarrow> split_on d s = [s]"
  by (induction s) auto

lemma elements_append: "elements (a @ CHR ''/'' # b) = elements a @ elements b"
  by (simp add: elements_def split_on_append)

lemma elements_slashes: "set sl \<subseteq> {CHR ''/''} \<Longrightarrow> elements sl = []"
proof (induction sl)
  case Nil
  then show ?case by (simp add: elements_def)
next
  case (Cons c sl)
  then have "c = CHR ''/''" by simp
  with Cons show ?case using elements_append [of "[]" sl] by (simp add: elements_def)
qed

lemma elements_name_slashes:
  assumes "CHR ''/'' \<notin> set e" and "e \<noteq> []" and "set sl \<subseteq> {CHR ''/''}"
  shows "elements (e @ sl) = [e]"
proof (cases sl)
  case Nil
  with assms show ?thesis by (simp add: elements_def split_on_none)
next
  case (Cons c sl')
  with assms have c: "c = CHR ''/''" and sl': "set sl' \<subseteq> {CHR ''/''}" by auto
  have "elements (e @ CHR ''/'' # sl') = elements e @ elements sl'"
    by (rule elements_append)
  also have "elements e = [e]" using assms by (simp add: elements_def split_on_none)
  also have "elements sl' = []" using sl' by (rule elements_slashes)
  finally show ?thesis using Cons c by simp
qed

text \<open>The shape of a path that has a parent for \<open>MkdirAll\<close>.\<close>

lemma parent_shape:
  assumes "1 < parent_end p"
  shows "\<exists>pp e sl. p = pp @ CHR ''/'' # e @ sl \<and> pp \<noteq> [] \<and> e \<noteq> [] \<and>
           CHR ''/'' \<notin> set e \<and> set sl \<subseteq> {CHR ''/''} \<and> take (parent_end p - 1) p = pp"
proof -
  define s1 where "s1 = takeWhile (\<lambda>c. c = CHR ''/'') (rev p)"
  define q where "q = dropWhile (\<lambda>c. c = CHR ''/'') (rev p)"
  define re where "re = takeWhile (\<lambda>c. c \<noteq> CHR ''/'') q"
  define rest where "rest = dropWhile (\<lambda>c. c \<noteq> CHR ''/'') q"
  have j: "parent_end p = length rest"
    by (simp add: parent_end_def rest_def q_def)
  have rp: "rev p = s1 @ re @ rest"
    by (simp add: s1_def q_def re_def rest_def)
  from assms j have rest_ne: "rest \<noteq> []" by auto
  then have "\<not> (hd rest \<noteq> CHR ''/'')"
    unfolding rest_def by (rule hd_dropWhile)
  with rest_ne obtain rest' where rest: "rest = CHR ''/'' # rest'"
    by (cases rest) auto
  from assms j rest have rest'_ne: "rest' \<noteq> []" by auto
  from rest_ne have q_ne: "q \<noteq> []" by (auto simp: rest_def)
  then have "hd q \<noteq> CHR ''/''"
    unfolding q_def using hd_dropWhile [of "\<lambda>c. c = CHR ''/''" "rev p"] by simp
  with q_ne have re_ne: "re \<noteq> []"
    by (cases q) (auto simp: re_def)
  have re_set: "CHR ''/'' \<notin> set re"
    unfolding re_def by (auto dest: set_takeWhileD)
  have s1_set: "set s1 \<subseteq> {CHR ''/''}"
    unfolding s1_def by (auto dest: set_takeWhileD)
  have "p = rev (rev p)" by simp
  also have "\<dots> = rev rest' @ CHR ''/'' # rev re @ rev s1"
    by (simp add: rp rest)
  finally have p: "p = rev rest' @ CHR ''/'' # rev re @ rev s1" .
  have "take (parent_end p - 1) p = rev rest'"
  proof -
    have "parent_end p - 1 = length (rev rest')" by (simp add: j rest)
    then show ?thesis by (subst (2) p) simp
  qed
  with p rest'_ne re_ne re_set s1_set show ?thesis
    by (intro exI [of _ "rev rest'"] exI [of _ "rev re"] exI [of _ "rev s1"]) auto
qed

lemma walk_snoc:
  assumes "walk fs s (cs @ [c]) = Inr L"
  shows "\<exists>cur m. walk fs s cs = Inr cur \<and> fs cur = Some (DirNode m)"
  using assms
proof (induction cs arbitrary: s)
  case Nil
  then show ?case by (auto split: option.splits node.splits if_splits)
next
  case (Cons d cs)
  from Cons.prems obtain m where "fs s = Some (DirNode m)" "can_search m"
    by (auto split: option.splits node.splits if_splits)
  with Cons.prems Cons.IH show ?case
    by (auto split: if_splits)
qed

lemma namei_parent:
  assumes j: "1 < parent_end p" and n: "namei w p = Inr L"
  shows "\<exists>m. Stat w (take (parent_end p - 1) p) = Inr (True, m)"
proof -
  from parent_shape [OF j] obtain pp e sl where p: "p = pp @ CHR ''/'' # e @ sl"
    and pp: "pp \<noteq> []" and e: "e \<noteq> []" "CHR ''/'' \<notin> set e" and sl: "set sl \<subseteq> {CHR ''/''}"
    and t: "take (parent_end p - 1) p = pp"
    by blast
  have el: "elements p = elements pp @ [e]"
    using elements_append [of pp "e @ sl"] elements_name_slashes [OF e(2) e(1) sl]
    by (simp add: p)
  have hd: "hd p = hd pp" using pp by (simp add: p)
  let ?s = "if hd pp = CHR ''/'' then [] else cwd w"
  from n have "walk (files w) ?s (elements pp @ [e]) = Inr L"
    by (simp add: namei_def el hd split: if_splits)
  then obtain cur m where "walk (files w) ?s (elements pp) = Inr cur"
    and "files w cur = Some (DirNode m)"
    by (blast dest: walk_snoc)
  then have "Stat w pp = Inr (True, m)"
    using pp by (simp add: Stat_def namei_def)
  with t show ?thesis by auto
qed

lemma MkdirAll_again:
  "MkdirAll w p perm = (w', r) \<Longrightarrow>
   \<exists>r'. MkdirAll w' p perm = (w', r') \<and> (r' = None) = (r = None)"
proof (induction w p perm arbitrary: w' r rule: MkdirAll.induct)
  case (1 w p perm)
  show ?case
  proof (cases "Stat w p")
    case (Inr info)
    then have "w' = w" using "1.prems"
      by (subst (asm) MkdirAll.simps) (auto split: prod.splits if_splits)
    with "1.prems" show ?thesis by simp
  next
    case (Inl e)
    let ?pp = "take (parent_end p - 1) p"
    define par where "par = (if 1 < parent_end p then MkdirAll w ?pp perm else (w, None))"
    obtain w1 r1 where par: "par = (w1, r1)" by (cases par)
    obtain w2 r2 where mk: "Mkdir w1 p perm = (w2, r2)" by (cases "Mkdir w1 p perm")
    have u: "(w', r) =
       (case par of
          (w1, Some err) \<Rightarrow> (w1, Some err)
        | (w1, None) \<Rightarrow>
            (case Mkdir w1 p perm of
               (w2, None) \<Rightarrow> (w2, None)
             | (w2, Some err) \<Rightarrow>
                 (case Stat w2 p of
                    Inr (isdir, m) \<Rightarrow> if isdir then (w2, None) else (w2, Some err)
                  | Inl e1 \<Rightarrow> (w2, Some err))))"
      using "1.prems" unfolding par_def by (simp add: MkdirAll_unfold_missing [OF Inl])
    show ?thesis
    proof (cases r1)
      case (Some err)
      with u par have w': "w' = w1" and r: "r = Some err" by simp_all
      from Some par have j: "1 < parent_end p" and first: "MkdirAll w ?pp perm = (w1, Some err)"
        by (auto simp: par_def split: if_splits)
      from "1.IH" [OF Inl j first] obtain r1' where
        again: "MkdirAll w1 ?pp perm = (w1, r1')" and r1': "r1' \<noteq> None"
        by auto
      show ?thesis
      proof (cases "Stat w1 p")
        case (Inl e')
        have "MkdirAll w1 p perm = (w1, r1')"
          using r1' j again by (auto simp: MkdirAll_unfold_missing [OF Inl])
        with w' r r1' show ?thesis by simp
      next
        case (Inr info)
        obtain isdir m where info: "info = (isdir, m)" by (cases info)
        show ?thesis
        proof (cases isdir)
          case False
          with Inr info have "MkdirAll w1 p perm = (w1, Some (PathError ENOTDIR))"
            by (simp add: MkdirAll_on_file)
          with w' r show ?thesis by simp
        next
          case True
          with Inr info obtain L where "namei w1 p = Inr L"
            by (auto simp: Stat_def split: sum.splits)
          from namei_parent [OF j this] obtain m' where "Stat w1 ?pp = Inr (True, m')" ..
          then have "MkdirAll w1 ?pp perm = (w1, None)" by (rule MkdirAll_on_dir)
          with again r1' show ?thesis by simp
        qed
      qed
    next
      case None
      have par_again: "(if 1 < parent_end p then MkdirAll w1 ?pp perm else (w1, None)) = (w1, None)"
      proof (cases "1 < parent_end p")
        case False
        then show ?thesis by simp
      next
        case True
        with par None have "MkdirAll w ?pp perm = (w1, None)" by (simp add: par_def)
        then obtain m where "Stat w1 ?pp = Inr (True, m)"
          by (blast dest: MkdirAll_success_Stat)
        then have "MkdirAll w1 ?pp perm = (w1, None)" by (rule MkdirAll_on_dir)
        with True show ?thesis by simp
      qed
      show ?thesis
      proof (cases r2)
        case r2: None
        with u par None mk have w': "w' = w2" and r: "r = None" by simp_all
        from mk r2 obtain m where "Stat w2 p = Inr (True, m)"
          by (blast dest: Mkdir_success_Stat)
        then have "MkdirAll w2 p perm = (w2, None)" by (rule MkdirAll_on_dir)
        with w' r show ?thesis by simp
      next
        case (Some err)
        with mk have w2: "w2 = w1" by (auto dest: Mkdir_failure_unchanged)
        show ?thesis
        proof (cases "Stat w1 p")
          case (Inl e1)
          with u par None mk Some w2 have w': "w' = w1" and r: "r = Some err" by simp_all
          have "MkdirAll w1 p perm = (w1, Some err)"
            using mk Some w2 Inl par_again by (simp add: MkdirAll_unfold_missing [OF Inl])
          with w' r show ?thesis by simp
        next
          case (Inr info)
          obtain isdir m where info: "info = (isdir, m)" by (cases info)
          show ?thesis
          proof (cases isdir)
            case True
            with u par None mk Some w2 Inr info have w': "w' = w1" and r: "r = None"
              by simp_all
            from True Inr info have "MkdirAll w1 p perm = (w1, None)"
              by (simp add: MkdirAll_on_dir)
            with w' r show ?thesis by simp
          next
            case False
            with u par None mk Some w2 Inr info have w': "w' = w1" and r: "r = Some err"
              by simp_all
            from False Inr info have "MkdirAll w1 p perm = (w1, Some (PathError ENOTDIR))"
              by (simp add: MkdirAll_on_file)
            with w' r show ?thesis by simp
          qed
        qed
      qed
    qed
  qed
qed

lemma Create_success_Stat:
  assumes "Create w p = (w', None)"
  shows "\<exists>m. Stat w' p = Inr (False, m)"
proof -
  from assms obtain fd where o: "OpenFile w p O_RDWR True True 0x1B6 = (w', Inr fd)"
    by (auto simp: Create_def split: prod.splits sum.splits)
  then have n: "namei w p = Inr fd" and ts: "\<not> trailing_slash p"
    and f: "\<exists>m b. files w' fd = Some (FileNode m b)"
    by (auto simp: OpenFile_def create_node_def writes_def
        split: sum.splits option.splits node.splits if_splits)
  have "dirs_kept w w'"
    using OpenFile_dirs_kept [of w p O_RDWR True True "0x1B6"] o by simp
  from this n have "namei w' p = Inr fd" by (rule namei_dirs_kept)
  with f ts show ?thesis by (auto simp: Stat_def)
qed

lemma getOrCreatePath_missing:
  assumes "Stat w loc = Inl ENOENT"
  shows "getOrCreatePath w loc perm isDir =
     (case MkdirAll w (if isDir then loc else Dir loc) perm of
        (w1, Some err) \<Rightarrow> (w1, Some err)
      | (w1, None) \<Rightarrow> if \<not> isDir then Create w1 loc else (w1, None))"
  using assms
  by (auto simp: getOrCreatePath_def IsNotExist_def stat_err_def Let_def
      split: prod.splits option.splits)

lemma getOrCreatePath_not_missing:
  assumes "Stat w loc \<noteq> Inl ENOENT"
  shows "getOrCreatePath w loc perm isDir = (w, None)"
  using assms
  by (auto simp: getOrCreatePath_def IsNotExist_def stat_err_def split: sum.splits)

lemma getOrCreatePath_again:
  assumes first: "getOrCreatePath w loc perm isDir = (w1, r1)"
  shows "\<exists>r2. getOrCreatePath w1 loc perm isDir = (w1, r2) \<and> (r1 = None \<longrightarrow> r2 = None)"
proof (cases "Stat w loc = Inl ENOENT")
  case False
  with first have "w1 = w" "r1 = None" by (simp_all add: getOrCreatePath_not_missing)
  with False show ?thesis by (simp add: getOrCreatePath_not_missing)
next
  case True
  let ?d = "if isDir then loc else Dir loc"
  obtain v rv where m: "MkdirAll w ?d perm = (v, rv)" by (cases "MkdirAll w ?d perm")
  from MkdirAll_again [OF m] obtain rv' where
    m': "MkdirAll v ?d perm = (v, rv')" and same: "(rv' = None) = (rv = None)"
    by blast
  note unf = first [unfolded getOrCreatePath_missing [OF True, of perm isDir] m]
  show ?thesis
  proof (cases rv)
    case (Some err)
    with unf have w1: "w1 = v" and r1: "r1 = Some err" by simp_all
    show ?thesis
    proof (cases "Stat v loc = Inl ENOENT")
      case False
      with w1 r1 show ?thesis by (simp add: getOrCreatePath_not_missing)
    next
      case True
      from same Some obtain err' where "rv' = Some err'" by auto
      with m' w1 r1 show ?thesis
        by (simp add: getOrCreatePath_missing [OF True])
    qed
  next
    case None
    with same have rv': "rv' = None" by simp
    show ?thesis
    proof (cases isDir)
      case True
      with unf None have w1: "w1 = v" and r1: "r1 = None" by simp_all
      from m None True obtain md where "Stat v loc = Inr (True, md)"
        by (auto dest: MkdirAll_success_Stat)
      then have "getOrCreatePath v loc perm isDir = (v, None)"
        by (simp add: getOrCreatePath_not_missing)
      with w1 r1 show ?thesis by simp
    next
      case False
      with unf None have c: "Create v loc = (w1, r1)" by simp
      show ?thesis
      proof (cases r1)
        case None
        with c obtain mf where "Stat w1 loc = Inr (False, mf)"
          by (blast dest: Create_success_Stat)
        then have "getOrCreatePath w1 loc perm isDir = (w1, None)"
          by (simp add: getOrCreatePath_not_missing)
        then show ?thesis by simp
      next
        case (Some err)
        with c have w1: "w1 = v" by (auto dest: Create_failure_unchanged)
        show ?thesis
        proof (cases "Stat v loc = Inl ENOENT")
          case False
          with w1 Some show ?thesis by (simp add: getOrCreatePath_not_missing)
        next
          case True
          have "getOrCreatePath v loc perm isDir = (v, r1)"
            using m' rv' c w1 False by (simp add: getOrCreatePath_missing [OF True])
          with w1 Some show ?thesis by simp
        qed
      qed
    qed
  qed
qed

subsection \<open>The other default paths leave the configuration file alone\<close>

text \<open>
  A path joined from a home and one of the three default names ends in the two names of
  the default, so the location it resolves to ends in the last of them: the snippets file
  and directory are never the location of the configuration file.
\<close>

lemma split_on_slashfree: "x \<in> set (split_on d s) \<Longrightarrow> d \<notin> set x"
proof (induction s arbitrary: x)
  case Nil
  then show ?case by simp
next
  case (Cons c s)
  obtain y ys where sp: "split_on d s = y # ys"
    by (cases "split_on d s") simp_all
  show ?case
  proof (cases "c = d")
    case True
    with Cons show ?thesis by auto
  next
    case False
    with Cons.prems sp have "x = c # y \<or> x \<in> set ys" by simp
    then show ?thesis
    proof
      assume "x = c # y"
      moreover have "d \<notin> set y" using Cons.IH [of y] sp by simp
      ultimately show ?thesis using False by simp
    next
      assume "x \<in> set ys"
      then show ?thesis using Cons.IH [of x] sp by simp
    qed
  qed
qed

lemma elements_join_sep:
  "list_all (\<lambda>x. x \<noteq> [] \<and> CHR ''/'' \<notin> set x) xs \<Longrightarrow> elements (join_sep xs) = xs"
proof (induction xs rule: join_sep.induct)
  case 1
  then show ?case by (simp add: elements_def)
next
  case (2 x)
  then show ?case by (simp add: elements_def split_on_none)
next
  case (3 x y ys)
  have "elements (x @ CHR ''/'' # join_sep (y # ys)) = elements x @ elements (join_sep (y # ys))"
    by (rule elements_append)
  moreover have "elements x = [x]" using 3 by (simp add: elements_def split_on_none)
  ultimately show ?case using 3 by simp
qed

text \<open>What \<open>Clean\<close> keeps on its stack is free of slashes and empty names.\<close>

lemma clean_fold_plain:
  assumes "list_all (\<lambda>x. x \<noteq> [] \<and> CHR ''/'' \<notin> set x) out"
    and "list_all (\<lambda>x. CHR ''/'' \<notin> set x) cs"
  shows "list_all (\<lambda>x. x \<noteq> [] \<and> CHR ''/'' \<notin> set x) (foldl (clean_step rooted) out cs)"
  using assms
proof (induction cs arbitrary: out)
  case Nil
  then show ?case by simp
next
  case (Cons c cs)
  have "list_all (\<lambda>x. x \<noteq> [] \<and> CHR ''/'' \<notin> set x) (clean_step rooted out c)"
    using Cons.prems
    by (auto simp: clean_step_def list_all_iff dest: in_set_butlastD)
  with Cons show ?case by simp
qed

lemma clean_step_name: "normal c \<Longrightarrow> clean_step rooted out c = out @ [c]"
  by (simp add: clean_step_def normal_def)

lemma Clean_rooted:
  "q \<noteq> [] \<Longrightarrow> hd q = CHR ''/'' \<Longrightarrow>
   Clean q = CHR ''/'' # join_sep (foldl (clean_step True) [] (split_on CHR ''/'' q))"
  by (simp add: Clean_def)

lemma Clean_relative:
  "q \<noteq> [] \<Longrightarrow> hd q \<noteq> CHR ''/'' \<Longrightarrow>
   foldl (clean_step False) [] (split_on CHR ''/'' q) \<noteq> [] \<Longrightarrow>
   Clean q = join_sep (foldl (clean_step False) [] (split_on CHR ''/'' q))"
  by (simp add: Clean_def)

lemma Clean_two_names:
  assumes sp: "split_on CHR ''/'' q = ys @ [a, b]" and a: "normal a" and b: "normal b"
  shows "\<exists>xs. elements (Clean q) = xs @ [a, b]"
proof -
  have q: "q \<noteq> []" using sp by auto
  have out: "foldl (clean_step r) [] (split_on CHR ''/'' q) = foldl (clean_step r) [] ys @ [a, b]"
    for r
    by (simp add: sp clean_step_name a b)
  have "list_all (\<lambda>x. CHR ''/'' \<notin> set x) (split_on CHR ''/'' q)"
    by (auto simp: list_all_iff dest: split_on_slashfree)
  then have "list_all (\<lambda>x. x \<noteq> [] \<and> CHR ''/'' \<notin> set x)
      (foldl (clean_step r) [] (split_on CHR ''/'' q))" for r
    by (intro clean_fold_plain) simp_all
  then have el: "elements (join_sep (foldl (clean_step r) [] (split_on CHR ''/'' q))) =
      foldl (clean_step r) [] ys @ [a, b]" for r
    using elements_join_sep [of "foldl (clean_step r) [] (split_on CHR ''/'' q)"]
    by (simp only: out)
  show ?thesis
  proof (cases "hd q = CHR ''/''")
    case True
    have "elements (Clean q) =
        elements (join_sep (foldl (clean_step True) [] (split_on CHR ''/'' q)))"
      using elements_append [of "[]" "join_sep (foldl (clean_step True) [] (split_on CHR ''/'' q))"]
      by (simp add: Clean_rooted [OF q True] elements_def)
    with el [of True] show ?thesis by simp
  next
    case False
    have "foldl (clean_step False) [] (split_on CHR ''/'' q) \<noteq> []"
      by (simp add: out)
    from Clean_relative [OF q False this] el [of False] show ?thesis by simp
  qed
qed

lemma Join_two_names:
  assumes sp: "split_on CHR ''/'' c = [a, b]" and a: "normal a" and b: "normal b"
  shows "\<exists>xs. elements (Join [h, c]) = xs @ [a, b]"
proof -
  have c: "c \<noteq> []" using sp by auto
  show ?thesis
  proof (cases "h = []")
    case True
    with c have "Join [h, c] = Clean c" by (cases c) (simp_all add: Join_def)
    moreover have "split_on CHR ''/'' c = [] @ [a, b]" using sp by simp
    ultimately show ?thesis using Clean_two_names [OF _ a b] by metis
  next
    case False
    then have "Join [h, c] = Clean (h @ CHR ''/'' # c)"
      by (cases h) (simp_all add: Join_def)
    moreover have "split_on CHR ''/'' (h @ CHR ''/'' # c) = split_on CHR ''/'' h @ [a, b]"
      by (simp add: split_on_append sp)
    ultimately show ?thesis using Clean_two_names [OF _ a b] by metis
  qed
qed

lemma walk_snoc_name:
  assumes "walk fs s (cs @ [c]) = Inr L" and "c \<noteq> ''.''" and "c \<noteq> ''..''"
  shows "\<exists>cur. L = cur @ [c]"
  using assms(1)
proof (induction cs arbitrary: s)
  case Nil
  with assms(2,3) show ?case by (auto split: option.splits node.splits if_splits)
next
  case (Cons d cs)
  then show ?case by (auto split: option.splits node.splits if_splits)
qed

lemma namei_last:
  assumes "namei w p = Inr L" and "elements p = xs @ [c]" and "normal c"
  shows "L \<noteq> [] \<and> last L = c"
proof -
  from assms(1,2) obtain s where "walk (files w) s (xs @ [c]) = Inr L"
    by (auto simp: namei_def split: if_splits)
  with assms(3) obtain cur where "L = cur @ [c]"
    by (auto simp: normal_def dest: walk_snoc_name)
  then show ?thesis by simp
qed

lemma OpenFile_target:
  "OpenFile w p acc creat trunc perm = (w', r) \<Longrightarrow> files w' L = files w L \<or> namei w p = Inr L"
  by (auto simp: OpenFile_def create_node_def
      split: sum.splits option.splits node.splits if_splits)

lemma only_new_dirs_keeps:
  "only_new_dirs w w' \<Longrightarrow> files w L = Some n \<Longrightarrow> files w' L = Some n"
  unfolding only_new_dirs_def by (metis option.distinct(1))

lemma getOrCreatePath_keeps_other:
  assumes f: "files w Lc = Some n"
    and el: "elements loc = xs @ [c]" and c: "normal c"
    and other: "last Lc \<noteq> c"
  shows "files (fst (getOrCreatePath w loc perm isDir)) Lc = Some n"
proof (cases "Stat w loc = Inl ENOENT")
  case False
  with f show ?thesis by (simp add: getOrCreatePath_not_missing)
next
  case True
  let ?d = "if isDir then loc else Dir loc"
  obtain v rv where m: "MkdirAll w ?d perm = (v, rv)" by (cases "MkdirAll w ?d perm")
  have "only_new_dirs w v" using MkdirAll_only_new_dirs [of w ?d perm] m by simp
  from this f have fv: "files v Lc = Some n" by (rule only_new_dirs_keeps)
  obtain w2 r2 where cr: "Create v loc = (w2, r2)" by (cases "Create v loc")
  have f2: "files w2 Lc = Some n"
  proof -
    obtain r where o: "OpenFile v loc O_RDWR True True 0x1B6 = (w2, r)"
      using cr by (auto simp: Create_def split: prod.splits sum.splits)
    from OpenFile_target [OF o, of Lc] show ?thesis
    proof
      assume "files w2 Lc = files v Lc"
      with fv show ?thesis by simp
    next
      assume "namei v loc = Inr Lc"
      from namei_last [OF this el c] other show ?thesis by simp
    qed
  qed
  show ?thesis
    using m cr fv f2 by (auto simp: getOrCreatePath_missing [OF True] split: option.splits)
qed

lemma file_node_kept:
  assumes "file_node w p = Some x" and "dirs_kept w w'"
    and "\<And>L n. namei w p = Inr L \<Longrightarrow> files w L = Some n \<Longrightarrow> files w' L = Some n"
  shows "file_node w' p = Some x"
proof -
  obtain m b where x: "x = (m, b)" by (cases x)
  from assms(1) x obtain L where n: "namei w p = Inr L" and f: "files w L = Some (FileNode m b)"
    by (auto simp: file_node_def split: sum.splits option.splits node.splits)
  from assms(2) n have "namei w' p = Inr L" by (rule namei_dirs_kept)
  moreover from assms(3) [OF n f] have "files w' L = Some (FileNode m b)" .
  ultimately show ?thesis by (simp add: file_node_def x)
qed

lemma file_node_Stat: "file_node w p = Some x \<Longrightarrow> Stat w p \<noteq> Inl ENOENT"
  by (auto simp: file_node_def Stat_def split: sum.splits option.splits node.splits)

lemma default_names:
  "split_on CHR ''/'' DEFAULT_CONFIG_FILE = [''.corgi'', ''corgi_conf.json'']"
  "split_on CHR ''/'' DEFAULT_SNIPPETS_FILE = [''.corgi'', ''snippets.json'']"
  "split_on CHR ''/'' DEFAULT_SNIPPETS_DIR = [''.corgi'', ''snippets'']"
  "normal ''.corgi''" "normal ''corgi_conf.json''" "normal ''snippets.json''" "normal ''snippets''"
  by (simp_all add: DEFAULT_CONFIG_FILE_def DEFAULT_SNIPPETS_FILE_def DEFAULT_SNIPPETS_DIR_def
      normal_def)

lemma getOrCreatePath_keeps_node:
  assumes fc: "file_node w cfg = Some x"
    and cfg: "elements cfg = ys @ [cn]" "normal cn"
    and loc: "elements loc = xs @ [c]" "normal c"
    and ne: "cn \<noteq> c"
  shows "file_node (fst (getOrCreatePath w loc perm isDir)) cfg = Some x"
  using fc
proof (rule file_node_kept)
  show "dirs_kept w (fst (getOrCreatePath w loc perm isDir))"
    by (rule getOrCreatePath_dirs_kept)
next
  fix L n
  assume n: "namei w cfg = Inr L" and f: "files w L = Some n"
  from namei_last [OF n cfg] ne have "last L \<noteq> c" by simp
  with f loc show "files (fst (getOrCreatePath w loc perm isDir)) L = Some n"
    by (intro getOrCreatePath_keeps_other)
qed

lemma GetDefaultSnippetsFile_keeps_config:
  assumes "file_node w (Join [h, DEFAULT_CONFIG_FILE]) = Some x"
  shows "file_node (fst (GetDefaultSnippetsFile w h')) (Join [h, DEFAULT_CONFIG_FILE]) = Some x"
proof -
  from Join_two_names [OF default_names(1) default_names(4) default_names(5), of h]
  obtain ys where 1: "elements (Join [h, DEFAULT_CONFIG_FILE]) = ys @ [''.corgi'', ''corgi_conf.json'']" ..
  from Join_two_names [OF default_names(2) default_names(4) default_names(6), of h']
  obtain xs where 2: "elements (Join [h', DEFAULT_SNIPPETS_FILE]) = xs @ [''.corgi'', ''snippets.json'']" ..
  have "file_node (fst (getOrCreatePath w (Join [h', DEFAULT_SNIPPETS_FILE]) 0x1ED False))
      (Join [h, DEFAULT_CONFIG_FILE]) = Some x"
    using assms
  proof (rule getOrCreatePath_keeps_node)
    show "elements (Join [h, DEFAULT_CONFIG_FILE]) = (ys @ [''.corgi'']) @ [''corgi_conf.json'']"
      using 1 by simp
    show "elements (Join [h', DEFAULT_SNIPPETS_FILE]) = (xs @ [''.corgi'']) @ [''snippets.json'']"
      using 2 by simp
  qed (simp_all add: default_names)
  then show ?thesis
    by (auto simp: GetDefaultSnippetsFile_def Let_def split: prod.splits option.splits)
qed

lemma GetDefaultSnippetsDir_keeps_config:
  assumes "file_node w (Join [h, DEFAULT_CONFIG_FILE]) = Some x"
  shows "file_node (fst (GetDefaultSnippetsDir w h')) (Join [h, DEFAULT_CONFIG_FILE]) = Some x"
proof -
  from Join_two_names [OF default_names(1) default_names(4) default_names(5), of h]
  obtain ys where 1: "elements (Join [h, DEFAULT_CONFIG_FILE]) = ys @ [''.corgi'', ''corgi_conf.json'']" ..
  from Join_two_names [OF default_names(3) default_names(4) default_names(7), of h']
  obtain xs where 2: "elements (Join [h', DEFAULT_SNIPPETS_DIR]) = xs @ [''.corgi'', ''snippets'']" ..
  have "file_node (fst (getOrCreatePath w (Join [h', DEFAULT_SNIPPETS_DIR]) 0x1ED True))
      (Join [h, DEFAULT_CONFIG_FILE]) = Some x"
    using assms
  proof (rule getOrCreatePath_keeps_node)
    show "elements (Join [h, DEFAULT_CONFIG_FILE]) = (ys @ [''.corgi'']) @ [''corgi_conf.json'']"
      using 1 by simp
    show "elements (Join [h', DEFAULT_SNIPPETS_DIR]) = (xs @ [''.corgi'']) @ [''snippets'']"
      using 2 by simp
  qed (simp_all add: default_names)
  then show ?thesis
    by (auto simp: GetDefaultSnippetsDir_def Let_def split: prod.splits option.splits)
qed

lemma GetDefaultConfigFile_existing:
  assumes "file_node w (Join [h, DEFAULT_CONFIG_FILE]) = Some x"
  shows "GetDefaultConfigFile w h = (w, Join [h, DEFAULT_CONFIG_FILE], None)"
  using file_node_Stat [OF assms]
  by (simp add: GetDefaultConfigFile_def getOrCreatePath_not_missing)

subsection \<open>Reading back what \<open>MarshalIndent\<close> wrote\<close>

text \<open>
  \<open>unquote\<close> after \<open>escape\<close> is \<open>coerce\<close> (\<open>unquote_escape_coerce\<close>, along the
  recursion of \<open>escape\<close>), which changes nothing in well-formed UTF-8; the document
  \<open>MarshalIndent\<close> writes lexes to its seventeen tokens, and \<open>Unmarshal\<close> gets the four
  fields back, coerced.
\<close>

lemma rune_len_le: "rune_len s \<le> length s"
  by (auto simp: rune_len_def conts_def split: list.splits)

lemma hex_val_hex_all: "list_all (\<lambda>n. hex_val (hex ! n) = Some n) [0..<16]"
  by code_simp

lemma hex_val_hex: "n < 16 \<Longrightarrow> hex_val (hex ! n) = Some n"
  using hex_val_hex_all by (simp add: list_all_iff)

lemma hex_val_zero: "hex_val CHR ''0'' = Some 0"
  by code_simp

lemma getu4_escape:
  "getu4 (CHR 0x5C # CHR ''u'' # CHR ''0'' # CHR ''0'' #
      hex ! (of_char c div 16) # hex ! (of_char c mod 16) # rest) = Some (of_char c)"
proof -
  have "(of_char c :: nat) < 16 * 16" using nat_of_char_less_256 [of c] by simp
  then have "(of_char c :: nat) div 16 < 16" by (rule less_mult_imp_div_less)
  then have 1: "hex_val (hex ! (of_char c div 16)) = Some (of_char c div 16)"
    by (rule hex_val_hex)
  have 2: "hex_val (hex ! (of_char c mod 16)) = Some (of_char c mod 16)"
    by (rule hex_val_hex) simp
  show ?thesis
    by (simp add: getu4_def hex_val_zero 1 2)
qed

lemma unquote_end: "unquote (CHR 0x22 # rest) = Some ([], rest)"
  by (simp add: unquote.simps)

lemma unquote_backslash:
  "e \<noteq> CHR ''u'' \<Longrightarrow>
   unquote (CHR 0x5C # e # rest) = push (map_option (\<lambda>x. [x]) (unescape e)) (unquote rest)"
  by (simp add: unquote.simps)

lemma unquote_u:
  assumes "getu4 (CHR 0x5C # CHR ''u'' # h1 # h2 # h3 # h4 # rest) = Some rr"
    and "\<not> is_surrogate rr"
  shows "unquote (CHR 0x5C # CHR ''u'' # h1 # h2 # h3 # h4 # rest) =
     push (Some (encode_rune rr)) (unquote rest)"
  using assms by (subst unquote.simps) simp

lemma unquote_ascii:
  "c \<noteq> CHR 0x22 \<Longrightarrow> c \<noteq> CHR 0x5C \<Longrightarrow> \<not> (of_char c :: nat) < 0x20 \<Longrightarrow>
   (of_char c :: nat) < 0x80 \<Longrightarrow> unquote (c # rest) = push (Some [c]) (unquote rest)"
  by (simp add: unquote.simps)

lemma encode_rune_ascii: "(of_char c :: nat) < 0x80 \<Longrightarrow> encode_rune (of_char c) = [c]"
  by (simp add: encode_rune_def)

lemma not_surrogate_ascii: "(of_char c :: nat) < 0x80 \<Longrightarrow> \<not> is_surrogate (of_char c)"
  by (simp add: is_surrogate_def)

lemma unquote_escape_byte:
  assumes a: "(of_char c :: nat) < 0x80"
  shows "unquote (escape_byte c @ rest) = push (Some [c]) (unquote rest)"
proof (cases "c = CHR 0x22 \<or> c = CHR 0x5C")
  case True
  then have "escape_byte c = [CHR 0x5C, c]" by (simp add: escape_byte_def)
  moreover from True have "c \<noteq> CHR ''u''" by auto
  moreover from True have "unescape c = Some c" by (auto simp: unescape_def)
  ultimately show ?thesis by (simp add: unquote_backslash)
next
  case q: False
  show ?thesis
  proof (cases "c = CHR 0x0A")
    case True
    then have "escape_byte c = [CHR 0x5C, CHR ''n'']" by (simp add: escape_byte_def)
    with True show ?thesis by (simp add: unquote_backslash unescape_def)
  next
    case nl: False
    show ?thesis
    proof (cases "c = CHR 0x0D")
      case True
      then have "escape_byte c = [CHR 0x5C, CHR ''r'']" by (simp add: escape_byte_def)
      with True show ?thesis by (simp add: unquote_backslash unescape_def)
    next
      case cr: False
      show ?thesis
      proof (cases "c = CHR 0x09")
        case True
        then have "escape_byte c = [CHR 0x5C, CHR ''t'']" by (simp add: escape_byte_def)
        with True show ?thesis by (simp add: unquote_backslash unescape_def)
      next
        case tab: False
        show ?thesis
        proof (cases "(of_char c :: nat) < 0x20 \<or> c = CHR ''<'' \<or> c = CHR ''>'' \<or> c = CHR ''&''")
          case True
          with q nl cr tab have "escape_byte c = [CHR 0x5C, CHR ''u'', CHR ''0'', CHR ''0'',
              hex ! (of_char c div 16), hex ! (of_char c mod 16)]"
            unfolding escape_byte_def by (simp only: if_True if_False)
          then show ?thesis
            using unquote_u [OF getu4_escape not_surrogate_ascii [OF a], of rest]
            by (simp add: encode_rune_ascii [OF a])
        next
          case False
          with q nl cr tab have "escape_byte c = [c]"
            unfolding escape_byte_def by (simp only: if_True if_False)
          with q False a show ?thesis by (simp add: unquote_ascii)
        qed
      qed
    qed
  qed
qed

lemma conts_take: "conts k r \<Longrightarrow> conts k (take k r @ t)"
  by (simp add: conts_def)

lemma starts_take: "starts lo hi r \<Longrightarrow> 0 < k \<Longrightarrow> starts lo hi (take k r @ t)"
  by (cases r; cases k) (simp_all add: starts_def)

lemma rune_len_prefix:
  assumes "0 < rune_len s"
  shows "rune_len (take (rune_len s) s @ t) = rune_len s"
proof (cases s)
  case Nil
  with assms show ?thesis by (simp add: rune_len_def)
next
  case (Cons a r)
  consider (one) "rune_len s = 1" "(of_char a :: nat) < 0x80"
    | (two) "rune_len s = 2" "\<not> (of_char a :: nat) < 0x80" "between 0xC2 0xDF a" "conts 1 r"
    | (e0) "rune_len s = 3" "\<not> (of_char a :: nat) < 0x80" "\<not> between 0xC2 0xDF a"
        "between 0xE0 0xE0 a" "starts 0xA0 0xBF r" "conts 2 r"
    | (e1) "rune_len s = 3" "\<not> (of_char a :: nat) < 0x80" "\<not> between 0xC2 0xDF a"
        "\<not> between 0xE0 0xE0 a" "between 0xE1 0xEC a" "conts 2 r"
    | (ed) "rune_len s = 3" "\<not> (of_char a :: nat) < 0x80" "\<not> between 0xC2 0xDF a"
        "\<not> between 0xE0 0xE0 a" "\<not> between 0xE1 0xEC a" "between 0xED 0xED a"
        "starts 0x80 0x9F r" "conts 2 r"
    | (ee) "rune_len s = 3" "\<not> (of_char a :: nat) < 0x80" "\<not> between 0xC2 0xDF a"
        "\<not> between 0xE0 0xE0 a" "\<not> between 0xE1 0xEC a" "\<not> between 0xED 0xED a"
        "between 0xEE 0xEF a" "conts 2 r"
    | (f0) "rune_len s = 4" "\<not> (of_char a :: nat) < 0x80" "\<not> between 0xC2 0xDF a"
        "\<not> between 0xE0 0xE0 a" "\<not> between 0xE1 0xEC a" "\<not> between 0xED 0xED a"
        "\<not> between 0xEE 0xEF a" "between 0xF0 0xF0 a" "starts 0x90 0xBF r" "conts 3 r"
    | (f1) "rune_len s = 4" "\<not> (of_char a :: nat) < 0x80" "\<not> between 0xC2 0xDF a"
        "\<not> between 0xE0 0xE0 a" "\<not> between 0xE1 0xEC a" "\<not> between 0xED 0xED a"
        "\<not> between 0xEE 0xEF a" "\<not> between 0xF0 0xF0 a" "between 0xF1 0xF3 a" "conts 3 r"
    | (f4) "rune_len s = 4" "\<not> (of_char a :: nat) < 0x80" "\<not> between 0xC2 0xDF a"
        "\<not> between 0xE0 0xE0 a" "\<not> between 0xE1 0xEC a" "\<not> between 0xED 0xED a"
        "\<not> between 0xEE 0xEF a" "\<not> between 0xF0 0xF0 a" "\<not> between 0xF1 0xF3 a"
        "between 0xF4 0xF4 a" "starts 0x80 0x8F r" "conts 3 r"
    using assms unfolding Cons rune_len_def list.case
    by (auto split: if_splits)
  then show ?thesis
  proof cases
    case one
    then show ?thesis by (simp add: Cons rune_len_def)
  next
    case two
    then show ?thesis using conts_take [of 1 r t] by (simp add: Cons rune_len_def)
  next
    case e0
    then show ?thesis
      using conts_take [of 2 r t] starts_take [of "0xA0" "0xBF" r 2 t]
      by (simp add: Cons rune_len_def)
  next
    case e1
    then show ?thesis using conts_take [of 2 r t] by (simp add: Cons rune_len_def)
  next
    case ed
    then show ?thesis
      using conts_take [of 2 r t] starts_take [of "0x80" "0x9F" r 2 t]
      by (simp add: Cons rune_len_def)
  next
    case ee
    then show ?thesis using conts_take [of 2 r t] by (simp add: Cons rune_len_def)
  next
    case f0
    then show ?thesis
      using conts_take [of 3 r t] starts_take [of "0x90" "0xBF" r 3 t]
      by (simp add: Cons rune_len_def)
  next
    case f1
    then show ?thesis using conts_take [of 3 r t] by (simp add: Cons rune_len_def)
  next
    case f4
    then show ?thesis
      using conts_take [of 3 r t] starts_take [of "0x80" "0x8F" r 3 t]
      by (simp add: Cons rune_len_def)
  qed
qed

lemma hex_val_digits:
  "hex_val CHR ''2'' = Some 2" "hex_val CHR ''8'' = Some 8" "hex_val CHR ''9'' = Some 9"
  by code_simp+

lemma not_surrogates: "\<not> is_surrogate 0x2028" "\<not> is_surrogate 0x2029"
  by (simp_all add: is_surrogate_def)

lemma separators:
  "encode_rune 0x2028 = line_separator" "encode_rune 0x2029 = paragraph_separator"
  unfolding encode_rune_def line_separator_def paragraph_separator_def is_surrogate_def
  by (simp, intro conjI; rule of_char_eqI [where ?'a = nat]; simp)+

lemma unquote_line_separator:
  "unquote ([CHR 0x5C, CHR ''u'', CHR ''2'', CHR ''0'', CHR ''2'', CHR ''8''] @ rest) =
     push (Some line_separator) (unquote rest)"
proof -
  have "getu4 (CHR 0x5C # CHR ''u'' # CHR ''2'' # CHR ''0'' # CHR ''2'' # CHR ''8'' # rest) =
      Some 0x2028"
    by (simp add: getu4_def hex_val_digits hex_val_zero)
  from unquote_u [OF this not_surrogates(1)] show ?thesis by (simp add: separators)
qed

lemma unquote_paragraph_separator:
  "unquote ([CHR 0x5C, CHR ''u'', CHR ''2'', CHR ''0'', CHR ''2'', CHR ''9''] @ rest) =
     push (Some paragraph_separator) (unquote rest)"
proof -
  have "getu4 (CHR 0x5C # CHR ''u'' # CHR ''2'' # CHR ''0'' # CHR ''2'' # CHR ''9'' # rest) =
      Some 0x2029"
    by (simp add: getu4_def hex_val_digits hex_val_zero)
  from unquote_u [OF this not_surrogates(2)] show ?thesis by (simp add: separators)
qed

lemma quote_backslash_codes:
  "(of_char (CHR 0x22) :: nat) = 0x22" "(of_char (CHR 0x5C) :: nat) = 0x5C"
  by code_simp+

lemma high_byte:
  assumes "\<not> (of_char c :: nat) < 0x80"
  shows "c \<noteq> CHR 0x22" "c \<noteq> CHR 0x5C" "\<not> (of_char c :: nat) < 0x20"
proof -
  show "c \<noteq> CHR 0x22"
  proof
    assume "c = CHR 0x22"
    then have "(of_char c :: nat) = 0x22" by (simp only: quote_backslash_codes)
    with assms show False by simp
  qed
  show "c \<noteq> CHR 0x5C"
  proof
    assume "c = CHR 0x5C"
    then have "(of_char c :: nat) = 0x5C" by (simp only: quote_backslash_codes)
    with assms show False by simp
  qed
  show "\<not> (of_char c :: nat) < 0x20" using assms by simp
qed

lemma unquote_rune:
  assumes hi: "\<not> (of_char c :: nat) < 0x80" and n: "0 < rune_len (c # cs)"
  shows "unquote (c # cs) =
     push (Some (take (rune_len (c # cs)) (c # cs))) (unquote (drop (rune_len (c # cs) - 1) cs))"
  using high_byte [OF hi] hi n by (subst unquote.simps) simp

lemma separator_lens:
  "rune_len line_separator = 3" "rune_len paragraph_separator = 3"
  "take 3 line_separator = line_separator" "take 3 paragraph_separator = paragraph_separator"
  by code_simp+

lemma separator_len:
  assumes "take 3 s = line_separator \<or> take 3 s = paragraph_separator"
  shows "rune_len s = 3"
proof -
  have s: "s = take 3 s @ drop 3 s" by simp
  from assms show ?thesis
  proof
    assume a: "take 3 s = line_separator"
    have "rune_len (take (rune_len line_separator) line_separator @ drop 3 s) =
        rune_len line_separator"
      by (rule rune_len_prefix) (simp add: separator_lens)
    then have "rune_len (line_separator @ drop 3 s) = 3"
      by (simp only: separator_lens)
    with a s show ?thesis by metis
  next
    assume a: "take 3 s = paragraph_separator"
    have "rune_len (take (rune_len paragraph_separator) paragraph_separator @ drop 3 s) =
        rune_len paragraph_separator"
      by (rule rune_len_prefix) (simp add: separator_lens)
    then have "rune_len (paragraph_separator @ drop 3 s) = 3"
      by (simp only: separator_lens)
    with a s show ?thesis by metis
  qed
qed

lemma valid_utf8_Cons:
  "valid_utf8 (c # cs) \<longleftrightarrow>
     0 < rune_len (c # cs) \<and> valid_utf8 (drop (rune_len (c # cs) - 1) cs)"
  by (simp add: valid_utf8.simps)

lemma rune_len_ascii: "(of_char c :: nat) < 0x80 \<Longrightarrow> rune_len (c # cs) = 1"
  by (simp add: rune_len_def)

lemma escape_ascii:
  "(of_char c :: nat) < 0x80 \<Longrightarrow> escape (c # cs) = escape_byte c @ escape cs"
  by (subst escape.simps) simp

lemma escape_line_separator:
  "\<not> (of_char c :: nat) < 0x80 \<Longrightarrow> rune_len (c # cs) \<noteq> 0 \<Longrightarrow>
   take 3 (c # cs) = line_separator \<Longrightarrow>
   escape (c # cs) =
     [CHR 0x5C, CHR ''u'', CHR ''2'', CHR ''0'', CHR ''2'', CHR ''8''] @ escape (drop 2 cs)"
  by (subst escape.simps) (simp only: if_True if_False simp_thms)

lemma escape_paragraph_separator:
  "\<not> (of_char c :: nat) < 0x80 \<Longrightarrow> rune_len (c # cs) \<noteq> 0 \<Longrightarrow>
   take 3 (c # cs) \<noteq> line_separator \<Longrightarrow> take 3 (c # cs) = paragraph_separator \<Longrightarrow>
   escape (c # cs) =
     [CHR 0x5C, CHR ''u'', CHR ''2'', CHR ''0'', CHR ''2'', CHR ''9''] @ escape (drop 2 cs)"
  by (subst escape.simps) (simp only: if_True if_False simp_thms)

lemma escape_rune:
  "\<not> (of_char c :: nat) < 0x80 \<Longrightarrow> rune_len (c # cs) \<noteq> 0 \<Longrightarrow>
   take 3 (c # cs) \<noteq> line_separator \<Longrightarrow> take 3 (c # cs) \<noteq> paragraph_separator \<Longrightarrow>
   escape (c # cs) =
     take (rune_len (c # cs)) (c # cs) @ escape (drop (rune_len (c # cs) - 1) cs)"
  by (subst escape.simps) (simp only: if_True if_False simp_thms)

lemma take3_rest: "take 3 (c # cs) = x \<Longrightarrow> x @ drop 2 cs = c # cs"
proof -
  assume "take 3 (c # cs) = x"
  moreover have "drop 3 (c # cs) = drop 2 cs" by (simp add: eval_nat_numeral)
  moreover have "take 3 (c # cs) @ drop 3 (c # cs) = c # cs" by (rule append_take_drop_id)
  ultimately show ?thesis by simp
qed

lemma coerce_Nil: "coerce [] = []"
  by (simp add: coerce.simps)

lemma coerce_invalid: "rune_len (c # cs) = 0 \<Longrightarrow> coerce (c # cs) = replacement @ coerce cs"
  by (subst coerce.simps) simp

lemma coerce_rune:
  "rune_len (c # cs) \<noteq> 0 \<Longrightarrow>
   coerce (c # cs) = take (rune_len (c # cs)) (c # cs) @ coerce (drop (rune_len (c # cs) - 1) cs)"
  by (subst coerce.simps) simp

lemma coerce_valid: "valid_utf8 s \<Longrightarrow> coerce s = s"
proof (induction s rule: coerce.induct)
  case 1
  show ?case by (rule coerce_Nil)
next
  case (2 c cs)
  let ?n = "rune_len (c # cs)"
  from "2.prems" have n: "?n \<noteq> 0" and v: "valid_utf8 (drop (?n - 1) cs)"
    by (simp_all add: valid_utf8_Cons)
  from "2.IH"(2) [OF n v] have "coerce (c # cs) = take ?n (c # cs) @ drop (?n - 1) cs"
    using n by (simp add: coerce_rune)
  also have "\<dots> = c # cs" using n by (simp add: take_Cons')
  finally show ?case .
qed

lemma coerce_empty: "coerce s = [] \<longleftrightarrow> s = []"
proof (cases s)
  case Nil
  then show ?thesis by (simp add: coerce_Nil)
next
  case (Cons c cs)
  show ?thesis
  proof (cases "rune_len (c # cs) = 0")
    case True
    then show ?thesis using Cons by (simp add: coerce_invalid replacement_def)
  next
    case False
    then show ?thesis using Cons by (simp add: coerce_rune take_Cons')
  qed
qed

lemma hex_val_letters: "hex_val CHR ''f'' = Some 15" "hex_val CHR ''d'' = Some 13"
  by code_simp+

lemma replacement_not_surrogate: "\<not> is_surrogate 0xFFFD"
  by (simp add: is_surrogate_def)

lemma replacement_rune: "encode_rune 0xFFFD = replacement"
  unfolding encode_rune_def replacement_def is_surrogate_def
  by (simp, intro conjI; rule of_char_eqI [where ?'a = nat]; simp)

lemma unquote_replacement:
  "unquote ([CHR 0x5C, CHR ''u'', CHR ''f'', CHR ''f'', CHR ''f'', CHR ''d''] @ rest) =
     push (Some replacement) (unquote rest)"
proof -
  have "getu4 (CHR 0x5C # CHR ''u'' # CHR ''f'' # CHR ''f'' # CHR ''f'' # CHR ''d'' # rest) =
      Some 0xFFFD"
    by (simp add: getu4_def hex_val_letters)
  from unquote_u [OF this replacement_not_surrogate] show ?thesis by (simp add: replacement_rune)
qed

lemma escape_invalid:
  "\<not> (of_char c :: nat) < 0x80 \<Longrightarrow> rune_len (c # cs) = 0 \<Longrightarrow>
   escape (c # cs) = [CHR 0x5C, CHR ''u'', CHR ''f'', CHR ''f'', CHR ''f'', CHR ''d''] @ escape cs"
  by (subst escape.simps) (simp only: if_True if_False simp_thms)

lemma unquote_escape_coerce:
  "unquote (escape s @ CHR 0x22 # rest) = Some (coerce s, rest)"
proof (induction s rule: escape.induct)
  case 1
  show ?case by (simp add: escape.simps unquote_end coerce_Nil)
next
  case (2 c cs)
  let ?n = "rune_len (c # cs)"
  let ?q = "CHR 0x22 # rest"
  show ?case
  proof (cases "(of_char c :: nat) < 0x80")
    case True
    then have n1: "?n = 1" by (rule rune_len_ascii)
    from "2.IH"(1) True have ih: "unquote (escape cs @ ?q) = Some (coerce cs, rest)" by simp
    have "escape (c # cs) @ ?q = escape_byte c @ (escape cs @ ?q)"
      using True by (simp add: escape_ascii)
    moreover have "coerce (c # cs) = c # coerce cs"
      using n1 by (simp add: coerce_rune)
    ultimately show ?thesis
      using unquote_escape_byte [OF True, of "escape cs @ ?q"] ih by (simp add: push_def)
  next
    case hi: False
    show ?thesis
    proof (cases "?n = 0")
      case True
      from "2.IH"(2) hi True have ih: "unquote (escape cs @ ?q) = Some (coerce cs, rest)" by simp
      have "escape (c # cs) @ ?q =
          [CHR 0x5C, CHR ''u'', CHR ''f'', CHR ''f'', CHR ''f'', CHR ''d''] @ (escape cs @ ?q)"
        using hi True by (simp add: escape_invalid)
      then show ?thesis
        using unquote_replacement [of "escape cs @ ?q"] ih True
        by (simp add: push_def coerce_invalid)
    next
      case nz: False
      then have n: "0 < ?n" by simp
      show ?thesis
      proof (cases "take 3 (c # cs) = line_separator")
        case True
        then have n3: "?n = 3" by (simp add: separator_len)
        from "2.IH"(3) hi nz True have
          ih: "unquote (escape (drop 2 cs) @ ?q) = Some (coerce (drop 2 cs), rest)"
          by simp
        have "escape (c # cs) @ ?q =
            [CHR 0x5C, CHR ''u'', CHR ''2'', CHR ''0'', CHR ''2'', CHR ''8''] @
              (escape (drop 2 cs) @ ?q)"
          using hi nz True by (simp add: escape_line_separator)
        moreover have "coerce (c # cs) = line_separator @ coerce (drop 2 cs)"
          using n3 True by (simp add: coerce_rune)
        ultimately show ?thesis
          using unquote_line_separator [of "escape (drop 2 cs) @ ?q"] ih by (simp add: push_def)
      next
        case ls: False
        show ?thesis
        proof (cases "take 3 (c # cs) = paragraph_separator")
          case True
          then have n3: "?n = 3" by (simp add: separator_len)
          from "2.IH"(4) hi nz ls True have
            ih: "unquote (escape (drop 2 cs) @ ?q) = Some (coerce (drop 2 cs), rest)"
            by simp
          have "escape (c # cs) @ ?q =
              [CHR 0x5C, CHR ''u'', CHR ''2'', CHR ''0'', CHR ''2'', CHR ''9''] @
                (escape (drop 2 cs) @ ?q)"
            using hi nz ls True by (simp add: escape_paragraph_separator)
          moreover have "coerce (c # cs) = paragraph_separator @ coerce (drop 2 cs)"
            using n3 True by (simp add: coerce_rune)
          ultimately show ?thesis
            using unquote_paragraph_separator [of "escape (drop 2 cs) @ ?q"] ih
            by (simp add: push_def)
        next
          case ps: False
          let ?y = "escape (drop (?n - 1) cs) @ ?q"
          from "2.IH"(5) hi nz ls ps have
            ih: "unquote ?y = Some (coerce (drop (?n - 1) cs), rest)"
            by simp
          have len: "?n - 1 \<le> length cs" using rune_len_le [of "c # cs"] by simp
          have e: "escape (c # cs) @ ?q = c # (take (?n - 1) cs @ ?y)"
            using hi nz ls ps n by (simp add: escape_rune take_Cons')
          have pre: "rune_len (c # (take (?n - 1) cs @ ?y)) = ?n"
            using rune_len_prefix [OF n, of ?y] n by (simp add: take_Cons')
          have "unquote (c # (take (?n - 1) cs @ ?y)) =
              push (Some (take ?n (c # (take (?n - 1) cs @ ?y))))
                (unquote (drop (?n - 1) (take (?n - 1) cs @ ?y)))"
            using unquote_rune [OF hi, of "take (?n - 1) cs @ ?y"] n pre by simp
          also have "take ?n (c # (take (?n - 1) cs @ ?y)) = c # take (?n - 1) cs"
            using n len by (simp add: take_Cons')
          also have "drop (?n - 1) (take (?n - 1) cs @ ?y) = ?y"
            using len by simp
          finally show ?thesis
            using e ih nz n by (simp add: push_def coerce_rune take_Cons')
        qed
      qed
    qed
  qed
qed

lemma unquote_escape:
  "valid_utf8 s \<Longrightarrow> unquote (escape s @ CHR 0x22 # rest) = Some (s, rest)"
  by (simp add: unquote_escape_coerce coerce_valid)

lemma malformed_byte_replaced:
  "unquote (escape [CHR 0xFF] @ [CHR 0x22]) = Some (replacement, [])"
proof -
  have "rune_len [CHR 0xFF] = 0" by code_simp
  then have "coerce [CHR 0xFF] = replacement" by (simp add: coerce_invalid coerce_Nil)
  then show ?thesis using unquote_escape_coerce [of "[CHR 0xFF]" "[]"] by simp
qed

lemma lex_white: "white ws \<Longrightarrow> lex (ws @ s) = lex s"
  by (induction ws) (simp_all add: white_def)

lemma lex_quote: "lex (quote s @ rest) = cons_tok (Str (coerce s)) (lex rest)"
  by (simp add: quote_def unquote_escape_coerce is_space_def)

lemma lex_member:
  assumes "white (JSON_MARSHAL_PREFIX u)" and "white (JSON_MARSHAL_INDENT u)"
  shows "lex (member u k v @ rest) =
     cons_tok (Str (coerce k)) (cons_tok Colon (cons_tok (Str (coerce v)) (lex rest)))"
proof -
  have "lex (member u k v @ rest) =
      lex (JSON_MARSHAL_PREFIX u @ JSON_MARSHAL_INDENT u @ quote k @ '': '' @ quote v @ rest)"
    by (simp add: member_def is_space_def)
  also have "\<dots> = lex (quote k @ '': '' @ quote v @ rest)"
    using assms by (simp add: lex_white)
  also have "\<dots> = cons_tok (Str (coerce k)) (lex ('': '' @ quote v @ rest))"
    by (rule lex_quote)
  also have "lex ('': '' @ quote v @ rest) = cons_tok Colon (lex (quote v @ rest))"
    by (simp add: is_space_def)
  also have "lex (quote v @ rest) = cons_tok (Str (coerce v)) (lex rest)"
    by (rule lex_quote)
  finally show ?thesis .
qed

lemma field_names_valid:
  "valid_utf8 ''snippets_file''" "valid_utf8 ''snippets_dir''" "valid_utf8 ''editor''"
  "valid_utf8 ''filter_cmd''"
  by code_simp+

lemma field_names_coerce:
  "coerce ''snippets_file'' = ''snippets_file''" "coerce ''snippets_dir'' = ''snippets_dir''"
  "coerce ''editor'' = ''editor''" "coerce ''filter_cmd'' = ''filter_cmd''"
  by (simp_all only: coerce_valid field_names_valid)

lemma lex_close:
  assumes "white pre"
  shows "lex (CHR 0x0A # pre @ ''}'') = Some [RBrace]"
proof -
  have "lex (CHR 0x0A # pre @ ''}'') = lex (pre @ ''}'')"
    by (subst lex.simps) (simp add: is_space_def)
  also have "\<dots> = lex ''}''" using assms by (rule lex_white)
  also have "\<dots> = Some [RBrace]" by code_simp
  finally show ?thesis .
qed

lemma lex_open: "lex (CHR ''{'' # s) = cons_tok LBrace (lex s)"
  by (subst lex.simps) (simp add: is_space_def)

lemma lex_comma: "lex (CHR '','' # s) = cons_tok Comma (lex s)"
  by (subst lex.simps) (simp add: is_space_def)

lemma lex_MarshalIndent:
  assumes "white_indent u"
  shows "lex (fst (MarshalIndent c u)) =
     Some [LBrace,
       Str ''snippets_file'', Colon, Str (coerce (SnippetsFile c)), Comma,
       Str ''snippets_dir'', Colon, Str (coerce (SnippetsDir c)), Comma,
       Str ''editor'', Colon, Str (coerce (Editor c)), Comma,
       Str ''filter_cmd'', Colon, Str (coerce (FilterCmd c)), RBrace]"
proof -
  from assms have w: "white (JSON_MARSHAL_PREFIX u)" "white (JSON_MARSHAL_INDENT u)"
    by (simp_all add: white_indent_def)
  let ?close = "CHR 0x0A # JSON_MARSHAL_PREFIX u @ ''}''"
  let ?m4 = "member u ''filter_cmd'' (FilterCmd c) @ ?close"
  let ?m3 = "member u ''editor'' (Editor c) @ CHR '','' # ?m4"
  let ?m2 = "member u ''snippets_dir'' (SnippetsDir c) @ CHR '','' # ?m3"
  let ?m1 = "member u ''snippets_file'' (SnippetsFile c) @ CHR '','' # ?m2"
  have 1: "lex ?m1 = Some [Str ''snippets_file'', Colon, Str (coerce (SnippetsFile c)), Comma,
      Str ''snippets_dir'', Colon, Str (coerce (SnippetsDir c)), Comma,
      Str ''editor'', Colon, Str (coerce (Editor c)), Comma,
      Str ''filter_cmd'', Colon, Str (coerce (FilterCmd c)), RBrace]"
    by (simp only: lex_member [OF w] field_names_coerce lex_comma lex_close [OF w(1)]
        cons_tok_def option.case)
  have "fst (MarshalIndent c u) = CHR ''{'' # ?m1"
    unfolding MarshalIndent_def fst_conv by (simp only: append.simps append_assoc)
  then show ?thesis
    by (simp only: lex_open 1 cons_tok_def option.case)
qed

lemma fold_field_names:
  "foldName ''snippets_file'' = ''SNIPPETS_FILE''"
  "foldName ''snippets_dir'' = ''SNIPPETS_DIR''"
  "foldName ''editor'' = ''EDITOR''"
  "foldName ''filter_cmd'' = ''FILTER_CMD''"
  by code_simp+

lemma is_field_names:
  "is_field ''snippets_file''" "is_field ''snippets_dir''" "is_field ''editor''"
  "is_field ''filter_cmd''"
  by (simp_all add: is_field_def field_names_def)

lemma set_field_names:
  "set_field c ''snippets_file'' v = c\<lparr>SnippetsFile := v\<rparr>"
  "set_field c ''snippets_dir'' v = c\<lparr>SnippetsDir := v\<rparr>"
  "set_field c ''editor'' v = c\<lparr>Editor := v\<rparr>"
  "set_field c ''filter_cmd'' v = c\<lparr>FilterCmd := v\<rparr>"
  unfolding set_field_def Let_def fold_field_names by simp_all

lemma set_all_fields:
  "set_field (set_field (set_field (set_field c0 ''snippets_file'' a) ''snippets_dir'' b)
      ''editor'' c) ''filter_cmd'' d =
   \<lparr>SnippetsFile = a, SnippetsDir = b, Editor = c, FilterCmd = d\<rparr>"
  by (cases c0) (simp add: set_field_names)

lemma parse_four_members:
  "parse [LBrace, Str k1, Colon, Str v1, Comma, Str k2, Colon, Str v2, Comma,
      Str k3, Colon, Str v3, Comma, Str k4, Colon, Str v4, RBrace] =
   Some (JObject [(k1, JString v1), (k2, JString v2), (k3, JString v3), (k4, JString v4)])"
  by (simp add: parse_def)

lemma decode_four_fields:
  "decode c0 (JObject [(''snippets_file'', JString a), (''snippets_dir'', JString b),
      (''editor'', JString c), (''filter_cmd'', JString d)]) =
   (\<lparr>SnippetsFile = a, SnippetsDir = b, Editor = c, FilterCmd = d\<rparr>, None)"
  by (simp add: decode_def is_field_names set_all_fields)

lemma Unmarshal_MarshalIndent_coerce:
  assumes "white_indent u"
  shows "Unmarshal (fst (MarshalIndent c u)) c0 = (coerce_Config c, None)"
  by (simp add: Unmarshal_def lex_MarshalIndent [OF assms] parse_four_members decode_four_fields
      coerce_Config_def)

lemma coerce_Config_valid: "utf8_text u c \<Longrightarrow> coerce_Config c = c"
  by (simp add: utf8_text_def coerce_Config_def coerce_valid)

lemma IsNew_coerce_Config: "IsNew (coerce_Config c) = IsNew c"
  by (simp add: IsNew_def coerce_Config_def coerce_empty)

lemma Unmarshal_MarshalIndent:
  assumes "utf8_text u c"
  shows "Unmarshal (fst (MarshalIndent c u)) c0 = (c, None)"
  using assms Unmarshal_MarshalIndent_coerce [of u c c0] coerce_Config_valid [OF assms]
  by (simp add: utf8_text_def)

lemma MarshalIndent_nonempty: "fst (MarshalIndent c u) \<noteq> []"
  by (simp add: MarshalIndent_def)

subsection \<open>\<open>Save\<close> and the file it writes\<close>

lemma ReadFile_iff:
  "ReadFile w p = (d, None) \<longleftrightarrow>
   (\<exists>m. file_node w p = Some (m, d) \<and> \<not> trailing_slash p \<and> can_read m)"
  by (auto simp: ReadFile_def OpenFile_def reads_def writes_def file_node_def
      split: sum.splits option.splits node.splits if_splits prod.splits)

lemma WriteFile_success:
  assumes "WriteFile w p data perm = (w', None)"
  shows "\<exists>m. file_node w' p = Some (m, data) \<and> \<not> trailing_slash p \<and>
           (\<forall>m0 b. file_node w p = Some (m0, b) \<longrightarrow> m = m0)"
proof -
  obtain w1 r where o: "OpenFile w p O_WRONLY True True perm = (w1, r)"
    by (cases "OpenFile w p O_WRONLY True True perm")
  with assms obtain fd where r: "r = Inr fd"
    by (cases r) (auto simp: WriteFile_def)
  from o r have n: "namei w p = Inr fd" and ts: "\<not> trailing_slash p"
    and f: "\<exists>m. files w1 fd = Some (FileNode m []) \<and>
              (\<forall>m0 b. files w fd = Some (FileNode m0 b) \<longrightarrow> m = m0)"
    by (auto simp: OpenFile_def create_node_def writes_def
        split: sum.splits option.splits node.splits if_splits)
  from f obtain m where m: "files w1 fd = Some (FileNode m [])"
    and keep: "\<forall>m0 b. files w fd = Some (FileNode m0 b) \<longrightarrow> m = m0" by blast
  from assms o r m have w': "w' = w1\<lparr>files := (files w1)(fd \<mapsto> FileNode m data)\<rparr>"
    by (simp add: WriteFile_def)
  have "dirs_kept w w'" using WriteFile_dirs_kept [of w p data perm] assms by simp
  from this n have "namei w' p = Inr fd" by (rule namei_dirs_kept)
  with w' ts keep n show ?thesis
    by (auto simp: file_node_def split: option.splits node.splits)
qed

lemma Join_default_nonempty:
  assumes "split_on CHR ''/'' c = [a, b]" and "normal a" and "normal b"
  shows "Join [h, c] \<noteq> []"
proof
  assume "Join [h, c] = []"
  moreover from Join_two_names [OF assms, of h] obtain xs where
    "elements (Join [h, c]) = xs @ [a, b]" ..
  ultimately show False by (simp add: elements_def)
qed

lemma Save_success:
  assumes "Save u w c = (w1, None)"
  shows "dirs_kept w w1 \<and> \<not> trailing_slash (config_path w) \<and>
         (\<exists>m. file_node w1 (config_path w) = Some (m, fst (MarshalIndent c u)))"
proof -
  let ?h = "GetDefaultConfigHome w"
  obtain v cfg r where cf: "GetDefaultConfigFile w ?h = (v, cfg, r)"
    by (cases "GetDefaultConfigFile w ?h")
  with assms have r: "r = None" and cfg: "cfg = config_path w"
    by (auto simp: Save_def GetDefaultConfigFile_def config_path_def Let_def
        split: option.splits prod.splits)
  from assms cf r cfg have
    wf: "WriteFile v (config_path w) (fst (MarshalIndent c u)) 0x1A4 = (w1, None)"
    by (simp add: Save_def MarshalIndent_def)
  have k1: "dirs_kept w v" using GetDefaultConfigFile_dirs_kept [of w ?h] cf by simp
  have k2: "dirs_kept v w1"
    using WriteFile_dirs_kept [of v "config_path w" "fst (MarshalIndent c u)" "0x1A4"] wf by simp
  from k1 k2 have "dirs_kept w w1" by (rule dirs_kept_trans)
  with WriteFile_success [OF wf] show ?thesis by blast
qed

lemma Save_existing:
  assumes "file_node w (config_path w) = Some (m, b)"
  shows "Save u w c = WriteFile w (config_path w) (fst (MarshalIndent c u)) 0x1A4"
  using GetDefaultConfigFile_existing [OF assms [unfolded config_path_def]]
  by (simp add: Save_def config_path_def MarshalIndent_def)

lemma LoadJsonDataFromFile_read:
  assumes "ReadFile w p = (d, None)" and "d \<noteq> []"
  shows "LoadJsonDataFromFile w p c0 = Unmarshal d c0"
  using assms by (simp add: LoadJsonDataFromFile_def)

section \<open>The claims\<close>

text \<open>
  C1. The claim: every filesystem error met during \<open>Load\<close> is returned, the failed write
  of the fresh defaults included. \<open>Load\<close> calls \<open>config.Save()\<close> as a statement. In
  \<open>readonly_conf\<close> the configuration file exists, is empty and may not be written:
  \<open>Save\<close>, called on the world \<open>Load\<close> hands it, returns the permission error, and
  \<open>Load\<close> returns the populated \<open>Config\<close> and no error.
\<close>

theorem Load_drops_the_error_of_Save:
  "snd (Save u0 (before_Save readonly_conf) first_run_config) = Some (PathError EACCES) \<and>
   Load u0 readonly_conf =
     (fst (Save u0 (before_Save readonly_conf) first_run_config), Inr first_run_config)"
proof
  show "snd (Save u0 (before_Save readonly_conf) first_run_config) = Some (PathError EACCES)"
    by code_simp
next
  have h: "GetDefaultConfigHome readonly_conf = ''/home/u''" by code_simp
  let ?w1 = "fst (GetDefaultConfigFile readonly_conf ''/home/u'')"
  let ?w2 = "fst (GetDefaultSnippetsFile ?w1 ''/home/u'')"
  let ?w3 = "fst (GetDefaultSnippetsDir ?w2 ''/home/u'')"
  have cf: "GetDefaultConfigFile readonly_conf (GetDefaultConfigHome readonly_conf) =
      (?w1, ''/home/u/.corgi/corgi_conf.json'', None)"
    unfolding h by (rule pair_fstI) code_simp
  have js: "LoadJsonDataFromFile ?w1 ''/home/u/.corgi/corgi_conf.json'' empty_Config =
      (empty_Config, None)"
    by code_simp
  have new: "IsNew empty_Config" by code_simp
  have sf: "GetDefaultSnippetsFile ?w1 (GetDefaultConfigHome readonly_conf) =
      (?w2, ''/home/u/.corgi/snippets.json'', None)"
    unfolding h by (rule pair_fstI) code_simp
  have sd: "GetDefaultSnippetsDir ?w2 (GetDefaultConfigHome readonly_conf) =
      (?w3, ''/home/u/.corgi/snippets'', None)"
    unfolding h by (rule pair_fstI) code_simp
  have ed: "GetDefaultEditor readonly_conf = (''/usr/bin/vim'', None)" by code_simp
  have fl: "GetDefaultFilterCmd readonly_conf = ([], Some MissingDefaultFilterCmdError)"
    by code_simp
  have c: "empty_Config\<lparr>SnippetsFile := ''/home/u/.corgi/snippets.json'',
        SnippetsDir := ''/home/u/.corgi/snippets'', Editor := ''/usr/bin/vim'',
        FilterCmd := []\<rparr> = first_run_config"
    by (simp add: empty_Config_def first_run_config_def)
  have b: "before_Save readonly_conf = ?w3" by (simp add: before_Save_def h)
  show "Load u0 readonly_conf =
     (fst (Save u0 (before_Save readonly_conf) first_run_config), Inr first_run_config)"
    unfolding Load_population [OF cf js new sf sd ed] fl b
    by (subst Load_setFilterCmd_Save) (simp_all add: c)
qed

text \<open>
  C2. The claim: \<open>GetDefaultFilterCmd\<close> returns \<open>MissingDefaultFilterCmdError\<close> exactly
  when neither \<open>peco\<close> nor \<open>fzf\<close> resolves. The code looks \<open>peco\<close> up and then assigns
  the result of looking \<open>fzf\<close> up to the same two variables, so the first lookup never
  counts: in \<open>peco_only\<close>, where \<open>peco\<close> resolves and \<open>fzf\<close> does not, the function
  returns the sentinel.
\<close>

theorem GetDefaultFilterCmd_forgets_peco:
  "LookPath peco_only DEFAULT_FILTER_CMD_PECO = (''/usr/bin/peco'', None) \<and>
   GetDefaultFilterCmd peco_only = ([], Some MissingDefaultFilterCmdError)"
  by code_simp

text \<open>
  C3. The claim: for every \<open>Config\<close>, \<open>Save\<close> followed by \<open>Load\<close> gives back the
  four fields that were saved.

  The \<open>Config\<close> whose four fields are empty is saved as a document of four empty
  strings; \<open>Load\<close> parses it, finds \<open>IsNew\<close> true and populates the defaults. In
  \<open>first_run\<close> the \<open>Config\<close> loaded after saving \<open>empty_Config\<close> has the default
  snippets file, not the empty one.
\<close>

theorem Save_then_Load_repopulates_empty_Config:
  "snd (Save u0 first_run empty_Config) = None \<and>
   snd (Load u0 (fst (Save u0 first_run empty_Config))) = Inr first_run_config \<and>
   SnippetsFile first_run_config \<noteq> SnippetsFile empty_Config"
  by code_simp

text \<open>
  C3, as amended. For every \<open>Config\<close> with at least one non-empty field, and a prefix
  and indent of white space (others would not leave a JSON document): if \<open>Save\<close>
  succeeds and the file it wrote can be read, then \<open>Load\<close> changes nothing and returns
  the saved fields coerced to UTF-8, that is, exactly the saved fields when they are
  well-formed UTF-8 text. (A Go string may hold any bytes; the JSON writer replaces those
  that are not UTF-8, see \<open>malformed_byte_replaced\<close>.)
\<close>

theorem Save_then_Load:
  assumes save: "Save u w c = (w1, None)"
    and new: "\<not> IsNew c"
    and indent: "white_indent u"
    and readable: "snd (ReadFile w1 (config_path w1)) = None"
  shows "Load u w1 = (w1, Inr (coerce_Config c)) \<and>
         (utf8_text u c \<longrightarrow> Load u w1 = (w1, Inr c))"
proof -
  let ?data = "fst (MarshalIndent c u)"
  from Save_success [OF save] obtain m where k: "dirs_kept w w1"
    and f: "file_node w1 (config_path w) = Some (m, ?data)"
    by blast
  have p: "config_path w1 = config_path w"
    using dirs_kept_home [OF k] by (simp add: config_path_def)
  obtain d where "ReadFile w1 (config_path w) = (d, None)"
    using readable p by (cases "ReadFile w1 (config_path w)") simp
  moreover from this f have "d = ?data" by (auto simp: ReadFile_iff)
  ultimately have r: "ReadFile w1 (config_path w) = (?data, None)" by simp
  have "LoadJsonDataFromFile w1 (config_path w) empty_Config = Unmarshal ?data empty_Config"
    using r MarshalIndent_nonempty by (rule LoadJsonDataFromFile_read)
  also have "\<dots> = (coerce_Config c, None)"
    using indent by (rule Unmarshal_MarshalIndent_coerce)
  finally have "LoadJsonDataFromFile w1 (Join [GetDefaultConfigHome w1, DEFAULT_CONFIG_FILE])
      empty_Config = (coerce_Config c, None)"
    using p by (simp add: config_path_def)
  moreover have "\<not> IsNew (coerce_Config c)" using new by (simp add: IsNew_coerce_Config)
  ultimately have "Load u w1 = (w1, Inr (coerce_Config c))" by (rule Load_not_new)
  then show ?thesis by (auto simp: coerce_Config_valid)
qed

theorem Save_then_Load_witness:
  "Load u0 (fst (Save u0 first_run first_run_config)) =
     (fst (Save u0 first_run first_run_config), Inr first_run_config)"
proof -
  have 1: "Save u0 first_run first_run_config = (fst (Save u0 first_run first_run_config), None)"
    by (rule pair_fstI) code_simp
  have 2: "\<not> IsNew first_run_config" by code_simp
  have 3: "white_indent u0" by code_simp
  have 4: "snd (ReadFile (fst (Save u0 first_run first_run_config))
      (config_path (fst (Save u0 first_run first_run_config)))) = None"
    by code_simp
  have 5: "utf8_text u0 first_run_config" by code_simp
  from Save_then_Load [OF 1 2 3 4] 5 show ?thesis by blast
qed

text \<open>
  C4. The claim: on an empty configuration file \<open>Load\<close> returns a \<open>Config\<close> with all
  four fields populated, \<open>IsNew\<close> false, and the file then holds those four values.

  In each of three worlds the configuration file is there, empty and readable. In
  \<open>empty_conf\<close> no filter command is on \<open>PATH\<close>: \<open>Load\<close> returns a \<open>Config\<close> whose
  \<open>FilterCmd\<close> is the empty string, as it must when it tolerates the missing filter
  command. In \<open>no_editor_empty_conf\<close> there is no editor either, and in
  \<open>readonly_corgi\<close> the directory \<open>.corgi\<close> may not be written, so that the snippets
  file cannot be created: \<open>Load\<close> returns the error and no \<open>Config\<close>.
\<close>

theorem Load_of_empty_file_leaves_FilterCmd_empty:
  "ReadFile empty_conf (config_path empty_conf) = ([], None) \<and>
   snd (Load u0 empty_conf) = Inr first_run_config \<and>
   FilterCmd first_run_config = [] \<and>
   ReadFile no_editor_empty_conf (config_path no_editor_empty_conf) = ([], None) \<and>
   snd (Load u0 no_editor_empty_conf) = Inl EditorNotFound \<and>
   ReadFile readonly_corgi (config_path readonly_corgi) = ([], None) \<and>
   snd (Load u0 readonly_corgi) = Inl (PathError EACCES)"
  by code_simp

text \<open>
  C4, as amended. Let the configuration file be empty and readable, let the default
  snippets file and the default snippets directory be there or be created
  (\<open>GetDefaultSnippetsFile\<close> and \<open>GetDefaultSnippetsDir\<close> return no error), and let an
  editor be found (\<open>GetDefaultEditor\<close> returns no error). Then \<open>Load\<close> returns a
  \<open>Config\<close>, and of it:

    \<^item> \<open>IsNew\<close> is false; \<open>SnippetsFile\<close> and \<open>SnippetsDir\<close> are the default paths under
      the configuration home, neither of them empty; \<open>Editor\<close> is the editor found;

    \<^item> \<open>FilterCmd\<close> is what \<open>GetDefaultFilterCmd\<close> returned: a filter command, not
      empty, when it returned no error, and the empty string when it returned
      \<open>MissingDefaultFilterCmdError\<close>;

    \<^item> the world \<open>Load\<close> leaves is the one its call of \<open>Save\<close> left, and if that \<open>Save\<close>
      returned no error, the configuration file holds the JSON document of the returned
      \<open>Config\<close>. With a prefix and an indent of white space that document reads back as
      the four fields coerced to UTF-8 (a byte that is not UTF-8 is in the file as the
      replacement character), so as exactly the returned \<open>Config\<close> when its fields are
      well-formed UTF-8.
\<close>

theorem Load_of_empty_file:
  assumes empty: "ReadFile w (config_path w) = ([], None)"
    and sf: "GetDefaultSnippetsFile w (GetDefaultConfigHome w) = (w2, snippetsFile, None)"
    and sd: "GetDefaultSnippetsDir w2 (GetDefaultConfigHome w) = (w3, snippetsDir, None)"
    and ed: "GetDefaultEditor w = (editor, None)"
    and fl: "GetDefaultFilterCmd w = (filterCmd, err)"
    and c: "c = \<lparr>SnippetsFile = snippetsFile, SnippetsDir = snippetsDir, Editor = editor,
                  FilterCmd = filterCmd\<rparr>"
    and w': "w' = fst (Save u w3 c)"
  shows "Load u w = (w', Inr c) \<and> \<not> IsNew c \<and>
     snippetsFile = Join [GetDefaultConfigHome w, DEFAULT_SNIPPETS_FILE] \<and> snippetsFile \<noteq> [] \<and>
     snippetsDir = Join [GetDefaultConfigHome w, DEFAULT_SNIPPETS_DIR] \<and> snippetsDir \<noteq> [] \<and>
     (err = None \<and> filterCmd \<noteq> [] \<or> err = Some MissingDefaultFilterCmdError \<and> filterCmd = []) \<and>
     (snd (Save u w3 c) = None \<longrightarrow>
        file_content w' (config_path w) = Some (fst (MarshalIndent c u)) \<and>
        (white_indent u \<longrightarrow>
           LoadJsonDataFromFile w' (config_path w) empty_Config = (coerce_Config c, None)) \<and>
        (utf8_text u c \<longrightarrow> LoadJsonDataFromFile w' (config_path w) empty_Config = (c, None)))"
proof -
  let ?h = "GetDefaultConfigHome w"
  let ?cfg = "Join [?h, DEFAULT_CONFIG_FILE]"
  from empty obtain m where node: "file_node w ?cfg = Some (m, [])" and rd: "can_read m"
    and ts: "\<not> trailing_slash ?cfg"
    by (auto simp: ReadFile_iff config_path_def)
  have cf: "GetDefaultConfigFile w ?h = (w, ?cfg, None)"
    using node by (rule GetDefaultConfigFile_existing)
  have js: "LoadJsonDataFromFile w ?cfg empty_Config = (empty_Config, None)"
    using empty by (simp add: LoadJsonDataFromFile_def config_path_def)
  have new: "IsNew empty_Config" by (simp add: IsNew_def empty_Config_def)
  have k2: "dirs_kept w w2" using GetDefaultSnippetsFile_dirs_kept [of w ?h] sf by simp
  have k3: "dirs_kept w2 w3" using GetDefaultSnippetsDir_dirs_kept [of w2 ?h] sd by simp
  have k: "dirs_kept w w3" using k2 k3 by (rule dirs_kept_trans)
  have sfv: "snippetsFile = Join [?h, DEFAULT_SNIPPETS_FILE]"
    using sf by (auto simp: GetDefaultSnippetsFile_def Let_def split: prod.splits option.splits)
  have sdv: "snippetsDir = Join [?h, DEFAULT_SNIPPETS_DIR]"
    using sd by (auto simp: GetDefaultSnippetsDir_def Let_def split: prod.splits option.splits)
  have rf: "err = None \<and> filterCmd \<noteq> [] \<or> err = Some MissingDefaultFilterCmdError \<and> filterCmd = []"
    using fl by (auto simp: GetDefaultFilterCmd_fzf split: option.splits if_splits)
  have rec: "empty_Config\<lparr>SnippetsFile := snippetsFile, SnippetsDir := snippetsDir,
      Editor := editor, FilterCmd := filterCmd\<rparr> = c"
    unfolding c by (simp add: empty_Config_def)
  have "Load u w = Load_setFilterCmd u w3
      (empty_Config\<lparr>SnippetsFile := snippetsFile, SnippetsDir := snippetsDir, Editor := editor\<rparr>)
      (filterCmd, err)"
    using Load_population [OF cf js new sf sd ed] fl by simp
  also have "\<dots> = (w', Inr c)"
    using rf unfolding w' by (subst Load_setFilterCmd_Save) (auto simp: rec)
  finally have load: "Load u w = (w', Inr c)" .
  have nonempty: "snippetsFile \<noteq> []" "snippetsDir \<noteq> []"
    unfolding sfv sdv
    by (rule Join_default_nonempty [OF default_names(2) default_names(4) default_names(6)],
        rule Join_default_nonempty [OF default_names(3) default_names(4) default_names(7)])
  have node2: "file_node w2 ?cfg = Some (m, [])"
    using GetDefaultSnippetsFile_keeps_config [OF node, of ?h] sf by simp
  have node3: "file_node w3 ?cfg = Some (m, [])"
    using GetDefaultSnippetsDir_keeps_config [OF node2, of ?h] sd by simp
  have p3: "config_path w3 = config_path w"
    using dirs_kept_home [OF k] by (simp add: config_path_def)
  have saved: "file_content w' (config_path w) = Some (fst (MarshalIndent c u)) \<and>
      (white_indent u \<longrightarrow>
         LoadJsonDataFromFile w' (config_path w) empty_Config = (coerce_Config c, None)) \<and>
      (utf8_text u c \<longrightarrow> LoadJsonDataFromFile w' (config_path w) empty_Config = (c, None))"
    if ok: "snd (Save u w3 c) = None"
  proof -
    have s: "Save u w3 c = WriteFile w3 (config_path w3) (fst (MarshalIndent c u)) 0x1A4"
      using node3 p3 by (intro Save_existing [of w3 m "[]"]) (simp add: config_path_def)
    with ok w' have wf: "WriteFile w3 (config_path w) (fst (MarshalIndent c u)) 0x1A4 = (w', None)"
      using p3 by (cases "WriteFile w3 (config_path w) (fst (MarshalIndent c u)) 0x1A4") simp
    from WriteFile_success [OF wf] node3 have
      n': "file_node w' (config_path w) = Some (m, fst (MarshalIndent c u))"
      by (auto simp: config_path_def)
    then have 1: "file_content w' (config_path w) = Some (fst (MarshalIndent c u))"
      by (simp add: file_content_def)
    have "ReadFile w' (config_path w) = (fst (MarshalIndent c u), None)"
      using n' rd ts by (auto simp: ReadFile_iff config_path_def)
    then have 2: "LoadJsonDataFromFile w' (config_path w) empty_Config =
        Unmarshal (fst (MarshalIndent c u)) empty_Config"
      using MarshalIndent_nonempty by (rule LoadJsonDataFromFile_read)
    have 3: "LoadJsonDataFromFile w' (config_path w) empty_Config = (coerce_Config c, None)"
      if "white_indent u"
      unfolding 2 using that by (rule Unmarshal_MarshalIndent_coerce)
    have 4: "LoadJsonDataFromFile w' (config_path w) empty_Config = (c, None)"
      if "utf8_text u c"
      unfolding 2 using that by (rule Unmarshal_MarshalIndent)
    from 1 3 4 show ?thesis by blast
  qed
  have notnew: "\<not> IsNew c" using nonempty unfolding c by (simp add: IsNew_def)
  from load notnew sfv sdv nonempty rf saved show ?thesis by blast
qed

theorem Load_of_empty_file_witness:
  "snd (Load u0 empty_conf) = Inr first_run_config \<and>
   \<not> IsNew first_run_config \<and>
   file_content (fst (Load u0 empty_conf)) (config_path empty_conf) =
     Some (fst (MarshalIndent first_run_config u0)) \<and>
   LoadJsonDataFromFile (fst (Load u0 empty_conf)) (config_path empty_conf) empty_Config =
     (first_run_config, None)"
proof -
  have h: "GetDefaultConfigHome empty_conf = ''/home/u''" by code_simp
  let ?w2 = "fst (GetDefaultSnippetsFile empty_conf ''/home/u'')"
  let ?w3 = "fst (GetDefaultSnippetsDir ?w2 ''/home/u'')"
  let ?w' = "fst (Save u0 ?w3 first_run_config)"
  have empty: "ReadFile empty_conf (config_path empty_conf) = ([], None)" by code_simp
  have sf: "GetDefaultSnippetsFile empty_conf (GetDefaultConfigHome empty_conf) =
      (?w2, ''/home/u/.corgi/snippets.json'', None)"
    unfolding h by (rule pair_fstI) code_simp
  have sd: "GetDefaultSnippetsDir ?w2 (GetDefaultConfigHome empty_conf) =
      (?w3, ''/home/u/.corgi/snippets'', None)"
    unfolding h by (rule pair_fstI) code_simp
  have ed: "GetDefaultEditor empty_conf = (''/usr/bin/vim'', None)" by code_simp
  have fl: "GetDefaultFilterCmd empty_conf = ([], Some MissingDefaultFilterCmdError)"
    by code_simp
  have c: "first_run_config = \<lparr>SnippetsFile = ''/home/u/.corgi/snippets.json'',
      SnippetsDir = ''/home/u/.corgi/snippets'', Editor = ''/usr/bin/vim'', FilterCmd = []\<rparr>"
    by (simp add: first_run_config_def)
  have ok: "snd (Save u0 ?w3 first_run_config) = None" by code_simp
  have plain: "utf8_text u0 first_run_config" by code_simp
  note r = Load_of_empty_file [OF empty sf sd ed fl c refl, of u0]
  from r have load: "Load u0 empty_conf = (?w', Inr first_run_config)" by blast
  from r have "\<not> IsNew first_run_config" by blast
  moreover from r ok plain have
    "file_content ?w' (config_path empty_conf) = Some (fst (MarshalIndent first_run_config u0))"
    "LoadJsonDataFromFile ?w' (config_path empty_conf) empty_Config = (first_run_config, None)"
    by blast+
  ultimately show ?thesis by (simp only: load fst_conv snd_conv simp_thms)
qed

text \<open>
  C5. Whenever \<open>Load\<close> returns an error, the configuration file that was there before
  the call holds after it the bytes it held before: no path of \<open>Load\<close> that ends in an
  error writes to the configuration file. This is so for every content of the file,
  malformed JSON included, and for every error, the editor that is not found included; the
  witness is the world \<open>no_editor_empty_conf\<close>, where the file is empty, \<open>EDITOR\<close> is
  not set and \<open>vim\<close> is not on \<open>PATH\<close>.
\<close>

theorem Load_error_keeps_config_file:
  assumes load: "Load u w = (w', Inl e)"
    and fc: "file_content w (config_path w) = Some b"
  shows "file_content w' (config_path w) = Some b"
proof -
  let ?h = "GetDefaultConfigHome w"
  let ?cfg = "Join [?h, DEFAULT_CONFIG_FILE]"
  from fc obtain m where fc0: "file_node w ?cfg = Some (m, b)"
    by (auto simp: config_path_def file_content_def)
  have cf: "GetDefaultConfigFile w ?h = (w, ?cfg, None)"
    using fc0 by (rule GetDefaultConfigFile_existing)
  obtain config r where js: "LoadJsonDataFromFile w ?cfg empty_Config = (config, r)"
    by (cases "LoadJsonDataFromFile w ?cfg empty_Config")
  obtain w2 sf r2 where sf: "GetDefaultSnippetsFile w ?h = (w2, sf, r2)"
    by (cases "GetDefaultSnippetsFile w ?h")
  obtain w3 sd r3 where sd: "GetDefaultSnippetsDir w2 ?h = (w3, sd, r3)"
    by (cases "GetDefaultSnippetsDir w2 ?h")
  have k2: "file_node w2 ?cfg = Some (m, b)"
    using GetDefaultSnippetsFile_keeps_config [OF fc0, of ?h] sf by simp
  have k3: "file_node w3 ?cfg = Some (m, b)"
    using GetDefaultSnippetsDir_keeps_config [OF k2, of ?h] sd by simp
  have "w' = w \<or> w' = w2 \<or> w' = w3"
    using load cf js sf sd
    by (auto simp: Load_def Load_with_def Let_def Load_setFilterCmd_def
        split: option.splits prod.splits if_splits)
  with fc0 k2 k3 show ?thesis by (auto simp: config_path_def file_content_def)
qed

theorem Load_error_keeps_config_file_witness:
  "snd (Load u0 no_editor_empty_conf) = Inl EditorNotFound \<and>
   file_content (fst (Load u0 no_editor_empty_conf)) ''/home/u/.corgi/corgi_conf.json'' = Some []"
proof -
  have s: "snd (Load u0 no_editor_empty_conf) = Inl EditorNotFound" by code_simp
  then have 1: "Load u0 no_editor_empty_conf = (fst (Load u0 no_editor_empty_conf), Inl EditorNotFound)"
    by (rule pair_fstI)
  have 2: "file_content no_editor_empty_conf (config_path no_editor_empty_conf) = Some []"
    by code_simp
  have 3: "config_path no_editor_empty_conf = ''/home/u/.corgi/corgi_conf.json''" by code_simp
  from Load_error_keeps_config_file [OF 1 2] have
    "file_content (fst (Load u0 no_editor_empty_conf)) (config_path no_editor_empty_conf) = Some []" .
  with s show ?thesis by (simp only: 3 simp_thms)
qed

text \<open>
  C6. If the configuration file parses to a \<open>Config\<close> whose four fields are all
  non-empty, \<open>Load\<close> returns exactly that \<open>Config\<close> and leaves the world as it was:
  no defaults are looked up, nothing is created and nothing is written. The witness is
  the document of the specification,
  \<open>{"snippets_file":"/a","snippets_dir":"/b","editor":"/c","filter_cmd":"/d"}\<close>.
\<close>

theorem Load_returns_populated_file:
  assumes "LoadJsonDataFromFile w (Join [GetDefaultConfigHome w, DEFAULT_CONFIG_FILE])
             empty_Config = (c, None)"
    and "SnippetsFile c \<noteq> []" and "SnippetsDir c \<noteq> []" and "Editor c \<noteq> []"
    and "FilterCmd c \<noteq> []"
  shows "Load u w = (w, Inr c)"
  using assms by (intro Load_not_new) (simp_all add: IsNew_def)

theorem Load_returns_populated_file_witness:
  "Load u0 configured =
     (configured, Inr \<lparr>SnippetsFile = ''/a'', SnippetsDir = ''/b'', Editor = ''/c'', FilterCmd = ''/d''\<rparr>)"
proof (rule Load_returns_populated_file)
  show "LoadJsonDataFromFile configured (Join [GetDefaultConfigHome configured, DEFAULT_CONFIG_FILE])
         empty_Config =
        (\<lparr>SnippetsFile = ''/a'', SnippetsDir = ''/b'', Editor = ''/c'', FilterCmd = ''/d''\<rparr>, None)"
    by code_simp
qed simp_all

text \<open>
  C7. \<open>GetDefaultConfigHome\<close> returns \<open>$HOME\<close> on \<open>darwin\<close>; on \<open>linux\<close> it returns
  \<open>$XDG_CONFIG_HOME\<close>, and \<open>$HOME\<close> when that variable is unset; for every other
  operating system it returns the empty string. It is a total function to strings: there
  is no error result. (A variable that is set to the empty string reads like an unset one,
  since the code uses \<open>os.Getenv\<close>: the fourth conjunct.)
\<close>

theorem GetDefaultConfigHome_policy:
  "(GOOS w = ''darwin'' \<longrightarrow> GetDefaultConfigHome w = Getenv w ''HOME'') \<and>
   (GOOS w = ''linux'' \<and> environ w ''XDG_CONFIG_HOME'' = Some v \<and> v \<noteq> [] \<longrightarrow>
      GetDefaultConfigHome w = v) \<and>
   (GOOS w = ''linux'' \<and> environ w ''XDG_CONFIG_HOME'' = None \<longrightarrow>
      GetDefaultConfigHome w = Getenv w ''HOME'') \<and>
   (GOOS w = ''linux'' \<and> environ w ''XDG_CONFIG_HOME'' = Some [] \<longrightarrow>
      GetDefaultConfigHome w = Getenv w ''HOME'') \<and>
   (GOOS w \<noteq> ''darwin'' \<and> GOOS w \<noteq> ''linux'' \<longrightarrow> GetDefaultConfigHome w = [])"
  by (simp add: GetDefaultConfigHome_def Getenv_def Let_def)

theorem GetDefaultConfigHome_policy_witness:
  "GetDefaultConfigHome on_darwin = ''/Users/u'' \<and>
   GetDefaultConfigHome with_xdg = ''/home/u/.config'' \<and>
   GetDefaultConfigHome first_run = ''/home/u'' \<and>
   GetDefaultConfigHome on_windows = []"
  using GetDefaultConfigHome_policy [of on_darwin]
    GetDefaultConfigHome_policy [of with_xdg "''/home/u/.config''"]
    GetDefaultConfigHome_policy [of first_run]
    GetDefaultConfigHome_policy [of on_windows]
  by (simp add: on_darwin_def with_xdg_def first_run_def on_windows_def Getenv_def)

text \<open>
  C8. The claim: \<open>getOrCreatePath\<close> is idempotent, for every location, permission bits
  and kind: two calls in succession leave the filesystem as one call does, the second call
  never fails, and nothing is done when the path exists.

  The second call can fail. When the first call fails for a reason that stays, the
  second call meets it again: in \<open>readonly_home\<close> the home directory may not be
  written, and both calls for \<open>/home/u/.corgi/snippets\<close> return the permission error;
  in \<open>first_run\<close>, where every directory may be written, permission bits \<open>0555\<close>
  make \<open>MkdirAll\<close> create \<open>.corgi\<close> without write permission and fail below it, in
  the first call and in the second.
\<close>

theorem second_getOrCreatePath_fails:
  "snd (getOrCreatePath readonly_home ''/home/u/.corgi/snippets'' 0x1ED True)
     = Some (PathError EACCES) \<and>
   snd (getOrCreatePath
          (fst (getOrCreatePath readonly_home ''/home/u/.corgi/snippets'' 0x1ED True))
          ''/home/u/.corgi/snippets'' 0x1ED True)
     = Some (PathError EACCES) \<and>
   snd (getOrCreatePath first_run ''/home/u/.corgi/snippets'' 0x16D True)
     = Some (PathError EACCES) \<and>
   snd (getOrCreatePath
          (fst (getOrCreatePath first_run ''/home/u/.corgi/snippets'' 0x16D True))
          ''/home/u/.corgi/snippets'' 0x16D True)
     = Some (PathError EACCES)"
  by code_simp

text \<open>
  C8, as amended. For every world, location, permission bits and kind: the second of two
  calls in succession leaves the world exactly as the first call left it; it returns no
  error when the first call returned none; and a call on a path that \<open>os.Stat\<close> finds
  changes nothing and returns no error.
\<close>

theorem getOrCreatePath_idempotent:
  assumes "getOrCreatePath w loc perm isDir = (w1, r1)"
  shows "(\<exists>r2. getOrCreatePath w1 loc perm isDir = (w1, r2) \<and> (r1 = None \<longrightarrow> r2 = None)) \<and>
         (\<forall>info. Stat w loc = Inr info \<longrightarrow> w1 = w \<and> r1 = None)"
proof
  show "\<exists>r2. getOrCreatePath w1 loc perm isDir = (w1, r2) \<and> (r1 = None \<longrightarrow> r2 = None)"
    using assms by (rule getOrCreatePath_again)
  show "\<forall>info. Stat w loc = Inr info \<longrightarrow> w1 = w \<and> r1 = None"
    using assms by (auto simp: getOrCreatePath_exists)
qed

theorem getOrCreatePath_idempotent_witness:
  "getOrCreatePath (fst (getOrCreatePath first_run ''/home/u/.corgi/snippets'' 0x1ED True))
       ''/home/u/.corgi/snippets'' 0x1ED True
     = (fst (getOrCreatePath first_run ''/home/u/.corgi/snippets'' 0x1ED True), None) \<and>
   getOrCreatePath first_run ''/home/u'' 0x1ED False = (first_run, None)"
proof
  have 1: "getOrCreatePath first_run ''/home/u/.corgi/snippets'' 0x1ED True =
      (fst (getOrCreatePath first_run ''/home/u/.corgi/snippets'' 0x1ED True), None)"
    by (rule pair_fstI) code_simp
  from getOrCreatePath_idempotent [OF 1]
  show "getOrCreatePath (fst (getOrCreatePath first_run ''/home/u/.corgi/snippets'' 0x1ED True))
       ''/home/u/.corgi/snippets'' 0x1ED True
     = (fst (getOrCreatePath first_run ''/home/u/.corgi/snippets'' 0x1ED True), None)"
    by auto
next
  obtain w1 r1 where 2: "getOrCreatePath first_run ''/home/u'' 0x1ED False = (w1, r1)"
    by (cases "getOrCreatePath first_run ''/home/u'' 0x1ED False")
  have s: "Stat first_run ''/home/u'' = Inr (True, 0x1ED)" by code_simp
  from getOrCreatePath_idempotent [OF 2] s have "w1 = first_run \<and> r1 = None" by blast
  with 2 show "getOrCreatePath first_run ''/home/u'' 0x1ED False = (first_run, None)" by simp
qed

text \<open>
  C9. Default population with no filter command on \<open>PATH\<close>. Suppose \<open>Load\<close> gets as
  far as the detection of the filter command: the configuration file is there and holds
  no data, the default snippets file and directory are ensured, an editor is found. Then:

    \<^item> if neither \<open>peco\<close> nor \<open>fzf\<close> resolves, \<open>GetDefaultFilterCmd\<close> returns
      \<open>MissingDefaultFilterCmdError\<close> and \<open>Load\<close> nevertheless returns the \<open>Config\<close>,
      with \<open>FilterCmd\<close> empty, after its call of \<open>Save\<close>;

    \<^item> whatever function does the detection in the body of \<open>Load\<close>: when it returns
      \<open>MissingDefaultFilterCmdError\<close>, the body sets the field to the string returned with
      it, calls \<open>Save\<close> and returns the \<open>Config\<close>;

    \<^item> and when it returns any other error, the body returns that error and no \<open>Config\<close>,
      and does nothing more: the world is the one the detection was called in, \<open>Save\<close>
      is not called.
\<close>

theorem Load_tolerates_missing_filter:
  assumes cf: "GetDefaultConfigFile w (GetDefaultConfigHome w) = (w1, configFile, None)"
    and js: "LoadJsonDataFromFile w1 configFile empty_Config = (config, None)"
    and new: "IsNew config"
    and sf: "GetDefaultSnippetsFile w1 (GetDefaultConfigHome w) = (w2, snippetsFile, None)"
    and sd: "GetDefaultSnippetsDir w2 (GetDefaultConfigHome w) = (w3, snippetsDir, None)"
    and ed: "GetDefaultEditor w = (editor, None)"
    and c: "c = \<lparr>SnippetsFile = snippetsFile, SnippetsDir = snippetsDir, Editor = editor,
                  FilterCmd = []\<rparr>"
  shows "(path_lookup w DEFAULT_FILTER_CMD_PECO = None \<and>
          path_lookup w DEFAULT_FILTER_CMD_FZF = None \<longrightarrow>
            GetDefaultFilterCmd w = ([], Some MissingDefaultFilterCmdError) \<and>
            Load u w = (fst (Save u w3 c), Inr c)) \<and>
         (\<forall>detect p. detect w3 = (p, Some MissingDefaultFilterCmdError) \<longrightarrow>
            Load_with detect u w =
              (fst (Save u w3 (c\<lparr>FilterCmd := p\<rparr>)), Inr (c\<lparr>FilterCmd := p\<rparr>))) \<and>
         (\<forall>detect p e. detect w3 = (p, Some e) \<and> e \<noteq> MissingDefaultFilterCmdError \<longrightarrow>
            Load_with detect u w = (w3, Inl e))"
proof (intro conjI allI impI)
  have new': "config = empty_Config"
    using new by (cases config) (simp add: IsNew_def empty_Config_def)
  have rec: "config\<lparr>SnippetsFile := snippetsFile, SnippetsDir := snippetsDir,
      Editor := editor, FilterCmd := p\<rparr> = c\<lparr>FilterCmd := p\<rparr>" for p
    unfolding c new' by (simp add: empty_Config_def)
  note body = Load_with_population(2) [OF cf js new sf sd ed]
  {
    assume none: "path_lookup w DEFAULT_FILTER_CMD_PECO = None \<and>
      path_lookup w DEFAULT_FILTER_CMD_FZF = None"
    then show fl: "GetDefaultFilterCmd w = ([], Some MissingDefaultFilterCmdError)"
      by (simp add: GetDefaultFilterCmd_fzf)
    have "Load u w =
        Load_setFilterCmd u w3
          (config\<lparr>SnippetsFile := snippetsFile, SnippetsDir := snippetsDir, Editor := editor\<rparr>)
          ([], Some MissingDefaultFilterCmdError)"
      using Load_population [OF cf js new sf sd ed] fl by simp
    also have "\<dots> = (fst (Save u w3 (c\<lparr>FilterCmd := []\<rparr>)), Inr (c\<lparr>FilterCmd := []\<rparr>))"
      by (subst Load_setFilterCmd_Save) (simp_all add: rec)
    finally show "Load u w = (fst (Save u w3 c), Inr c)"
      unfolding c by simp
  }
  {
    fix detect :: "world \<Rightarrow> string \<times> error option" and p
    assume "detect w3 = (p, Some MissingDefaultFilterCmdError)"
    then have "Load_with detect u w =
        Load_setFilterCmd u w3
          (config\<lparr>SnippetsFile := snippetsFile, SnippetsDir := snippetsDir, Editor := editor\<rparr>)
          (p, Some MissingDefaultFilterCmdError)"
      using body [of detect u] by simp
    also have "\<dots> = (fst (Save u w3 (c\<lparr>FilterCmd := p\<rparr>)), Inr (c\<lparr>FilterCmd := p\<rparr>))"
      by (subst Load_setFilterCmd_Save) (simp_all add: rec)
    finally show "Load_with detect u w =
        (fst (Save u w3 (c\<lparr>FilterCmd := p\<rparr>)), Inr (c\<lparr>FilterCmd := p\<rparr>))" .
  }
  {
    fix detect :: "world \<Rightarrow> string \<times> error option" and p e
    assume "detect w3 = (p, Some e) \<and> e \<noteq> MissingDefaultFilterCmdError"
    then show "Load_with detect u w = (w3, Inl e)"
      using body [of detect u] by (simp add: Load_setFilterCmd_def)
  }
qed

theorem Load_tolerates_missing_filter_witness:
  "snd (Load u0 first_run) = Inr first_run_config \<and>
   GetDefaultFilterCmd first_run = ([], Some MissingDefaultFilterCmdError) \<and>
   Load_with (\<lambda>w. (''/usr/bin/fzf'', Some (PathError EACCES))) u0 first_run =
     (before_Save first_run, Inl (PathError EACCES)) \<and>
   snd (Load_with (\<lambda>w. (''fzf'', Some MissingDefaultFilterCmdError)) u0 first_run) =
     Inr (first_run_config\<lparr>FilterCmd := ''fzf''\<rparr>)"
proof -
  have h: "GetDefaultConfigHome first_run = ''/home/u''" by code_simp
  let ?w1 = "fst (GetDefaultConfigFile first_run ''/home/u'')"
  let ?w2 = "fst (GetDefaultSnippetsFile ?w1 ''/home/u'')"
  let ?w3 = "fst (GetDefaultSnippetsDir ?w2 ''/home/u'')"
  have peco: "path_lookup first_run DEFAULT_FILTER_CMD_PECO = None" by code_simp
  have fzf: "path_lookup first_run DEFAULT_FILTER_CMD_FZF = None" by code_simp
  have cf: "GetDefaultConfigFile first_run (GetDefaultConfigHome first_run) =
      (?w1, ''/home/u/.corgi/corgi_conf.json'', None)"
    unfolding h by (rule pair_fstI) code_simp
  have js: "LoadJsonDataFromFile ?w1 ''/home/u/.corgi/corgi_conf.json'' empty_Config =
      (empty_Config, None)"
    by code_simp
  have new: "IsNew empty_Config" by code_simp
  have sf: "GetDefaultSnippetsFile ?w1 (GetDefaultConfigHome first_run) =
      (?w2, ''/home/u/.corgi/snippets.json'', None)"
    unfolding h by (rule pair_fstI) code_simp
  have sd: "GetDefaultSnippetsDir ?w2 (GetDefaultConfigHome first_run) =
      (?w3, ''/home/u/.corgi/snippets'', None)"
    unfolding h by (rule pair_fstI) code_simp
  have ed: "GetDefaultEditor first_run = (''/usr/bin/vim'', None)" by code_simp
  have c: "first_run_config = \<lparr>SnippetsFile = ''/home/u/.corgi/snippets.json'',
      SnippetsDir = ''/home/u/.corgi/snippets'', Editor = ''/usr/bin/vim'', FilterCmd = []\<rparr>"
    by (simp add: first_run_config_def)
  have b: "before_Save first_run = ?w3"
    by (simp add: before_Save_def h)
  note r = Load_tolerates_missing_filter [OF cf js new sf sd ed c, of u0]
  from r peco fzf have 1: "Load u0 first_run = (fst (Save u0 ?w3 first_run_config), Inr first_run_config)"
    and 2: "GetDefaultFilterCmd first_run = ([], Some MissingDefaultFilterCmdError)"
    by blast+
  from r have 3: "Load_with (\<lambda>w. (''/usr/bin/fzf'', Some (PathError EACCES))) u0 first_run =
      (?w3, Inl (PathError EACCES))"
    by simp
  from r have 4: "Load_with (\<lambda>w. (''fzf'', Some MissingDefaultFilterCmdError)) u0 first_run =
      (fst (Save u0 ?w3 (first_run_config\<lparr>FilterCmd := ''fzf''\<rparr>)),
       Inr (first_run_config\<lparr>FilterCmd := ''fzf''\<rparr>))"
    by simp
  show ?thesis
    by (simp only: 1 2 3 4 b fst_conv snd_conv simp_thms)
qed

text \<open>
  C10. Default population needs all four parsed fields to be empty. If the configuration
  file parses to a \<open>Config\<close> with at least one non-empty field (so also when some but
  not all fields are set), \<open>Load\<close> returns that \<open>Config\<close> unchanged and leaves the world
  as it was: no default population and no save. The witness is a file that sets the
  editor only.
\<close>

theorem Load_keeps_partial_file:
  assumes "LoadJsonDataFromFile w (Join [GetDefaultConfigHome w, DEFAULT_CONFIG_FILE])
             empty_Config = (c, None)"
    and "SnippetsFile c \<noteq> [] \<or> SnippetsDir c \<noteq> [] \<or> Editor c \<noteq> [] \<or> FilterCmd c \<noteq> []"
  shows "Load u w = (w, Inr c)"
  using assms by (intro Load_not_new) (auto simp: IsNew_def)

theorem Load_keeps_partial_file_witness:
  "Load u0 editor_only =
     (editor_only, Inr \<lparr>SnippetsFile = [], SnippetsDir = [], Editor = ''/c'', FilterCmd = []\<rparr>)"
proof (rule Load_keeps_partial_file)
  show "LoadJsonDataFromFile editor_only (Join [GetDefaultConfigHome editor_only, DEFAULT_CONFIG_FILE])
         empty_Config =
        (\<lparr>SnippetsFile = [], SnippetsDir = [], Editor = ''/c'', FilterCmd = []\<rparr>, None)"
    by code_simp
qed simp

end
